theory Spec2Isabelle
  imports Complex_Main "HOL-Library.Product_Lexorder"
begin

section \<open>Tensor elements\<close>

text \<open>
  A tensor element is an extended real with a not-a-number value.  Arithmetic on finite
  values is exact: rounding, overflow to infinity and the sign of zero are not part of
  this model, so a zero divisor behaves as a positive zero.
\<close>

datatype fval = Fin real | PInf | NInf | NaN

datatype error = AssertionError | RuntimeError | IndexError | AttributeError

text \<open>\<open>x.clamp(min=lo, max=hi)\<close>, which is \<open>min(max(x, lo), hi)\<close>.\<close>

fun fclamp :: "fval \<Rightarrow> real \<Rightarrow> real \<Rightarrow> fval" where
  "fclamp (Fin r) lo hi = Fin (min (max r lo) hi)"
| "fclamp PInf lo hi = Fin hi"
| "fclamp NInf lo hi = Fin (min lo hi)"
| "fclamp NaN lo hi = NaN"

fun fneg :: "fval \<Rightarrow> fval" where
  "fneg (Fin r) = Fin (- r)"
| "fneg PInf = NInf"
| "fneg NInf = PInf"
| "fneg NaN = NaN"

fun fadd :: "fval \<Rightarrow> fval \<Rightarrow> fval" where
  "fadd (Fin a) (Fin b) = Fin (a + b)"
| "fadd NaN _ = NaN"
| "fadd _ NaN = NaN"
| "fadd PInf NInf = NaN"
| "fadd NInf PInf = NaN"
| "fadd PInf _ = PInf"
| "fadd _ PInf = PInf"
| "fadd NInf _ = NInf"
| "fadd _ NInf = NInf"

definition fsub :: "fval \<Rightarrow> fval \<Rightarrow> fval" where
  "fsub a b = fadd a (fneg b)"

fun fsign :: "fval \<Rightarrow> int" where
  "fsign (Fin r) = (if 0 < r then 1 else if r < 0 then - 1 else 0)"
| "fsign PInf = 1"
| "fsign NInf = - 1"
| "fsign NaN = 0"

fun fmul :: "fval \<Rightarrow> fval \<Rightarrow> fval" where
  "fmul (Fin a) (Fin b) = Fin (a * b)"
| "fmul NaN _ = NaN"
| "fmul _ NaN = NaN"
| "fmul a b =
     (if fsign a * fsign b = 0 then NaN else if 0 < fsign a * fsign b then PInf else NInf)"

fun fdiv :: "fval \<Rightarrow> fval \<Rightarrow> fval" where
  "fdiv (Fin a) (Fin b) =
     (if b \<noteq> 0 then Fin (a / b)
      else if 0 < a then PInf else if a < 0 then NInf else NaN)"
| "fdiv NaN _ = NaN"
| "fdiv _ NaN = NaN"
| "fdiv (Fin a) _ = Fin 0"
| "fdiv PInf (Fin b) = (if 0 \<le> b then PInf else NInf)"
| "fdiv NInf (Fin b) = (if 0 \<le> b then NInf else PInf)"
| "fdiv _ _ = NaN"

fun flog :: "fval \<Rightarrow> fval" where
  "flog (Fin r) = (if 0 < r then Fin (ln r) else if r = 0 then NInf else NaN)"
| "flog PInf = PInf"
| "flog NInf = NaN"
| "flog NaN = NaN"

fun fexp :: "fval \<Rightarrow> fval" where
  "fexp (Fin r) = Fin (exp r)"
| "fexp PInf = PInf"
| "fexp NInf = Fin 0"
| "fexp NaN = NaN"

text \<open>\<open>x.sigmoid()\<close>, that is \<open>1 / (1 + exp(-x))\<close>.\<close>

fun fsigmoid :: "fval \<Rightarrow> fval" where
  "fsigmoid (Fin r) = Fin (1 / (1 + exp (- r)))"
| "fsigmoid PInf = Fin 1"
| "fsigmoid NInf = Fin 0"
| "fsigmoid NaN = NaN"

text \<open>Comparisons: every comparison with \<open>NaN\<close> is false.\<close>

fun flt :: "fval \<Rightarrow> fval \<Rightarrow> bool" where
  "flt (Fin a) (Fin b) = (a < b)"
| "flt NaN _ = False"
| "flt _ NaN = False"
| "flt _ NInf = False"
| "flt PInf _ = False"
| "flt _ _ = True"

definition fgt :: "fval \<Rightarrow> fval \<Rightarrow> bool" where
  "fgt a b = flt b a"

text \<open>\<open>x.clamp(min=lo)\<close> for a bound \<open>lo\<close> that is already a value of the tensor's dtype:
  \<open>max(x, lo)\<close>, where \<open>NaN\<close> stays \<open>NaN\<close>.\<close>

definition fclamp_min :: "fval \<Rightarrow> fval \<Rightarrow> fval" where
  "fclamp_min x lo = (if x = NaN \<or> lo = NaN then NaN else if flt x lo then lo else x)"

section \<open>inverse_sigmoid\<close>

text \<open>
  \<^verbatim>\<open>
  def inverse_sigmoid(x, eps=1e-5):
      x = x.clamp(min=0, max=1)
      x1 = x.clamp(min=eps)
      x2 = (1 - x).clamp(min=eps)
      return torch.log(x1 / x2)
  \<close>
  The three intermediate tensors are kept as functions of their own, element by element.
  \<open>eps\<close> is a Python float; \<open>clamp(min=eps)\<close> converts it to the dtype of the tensor
  before it compares, and \<open>cast\<close> is that conversion.
\<close>

definition inverse_sigmoid_x :: "fval \<Rightarrow> fval" where
  "inverse_sigmoid_x x = fclamp x 0 1"

definition inverse_sigmoid_x1 :: "(real \<Rightarrow> fval) \<Rightarrow> fval \<Rightarrow> real \<Rightarrow> fval" where
  "inverse_sigmoid_x1 cast x eps = fclamp_min (inverse_sigmoid_x x) (cast eps)"

definition inverse_sigmoid_x2 :: "(real \<Rightarrow> fval) \<Rightarrow> fval \<Rightarrow> real \<Rightarrow> fval" where
  "inverse_sigmoid_x2 cast x eps = fclamp_min (fsub (Fin 1) (inverse_sigmoid_x x)) (cast eps)"

definition inverse_sigmoid_dtype :: "(real \<Rightarrow> fval) \<Rightarrow> fval \<Rightarrow> real \<Rightarrow> fval" where
  "inverse_sigmoid_dtype cast x eps =
     flog (fdiv (inverse_sigmoid_x1 cast x eps) (inverse_sigmoid_x2 cast x eps))"


text \<open>\<open>inverse_sigmoid\<close> on a tensor whose dtype holds \<open>eps\<close> as it is.\<close>

definition inverse_sigmoid :: "fval \<Rightarrow> real \<Rightarrow> fval" where
  "inverse_sigmoid x eps = inverse_sigmoid_dtype Fin x eps"




text \<open>The default \<open>eps=1e-5\<close>.\<close>

definition default_eps :: real where
  "default_eps = 1 / 100000"

section \<open>Tensors and torch primitives\<close>

text \<open>A tensor: its shape and its elements in row-major order.\<close>

record 'a tensor =
  shape :: "nat list"
  data :: "'a list"

text \<open>\<open>torch.squeeze(t)\<close> removes every dimension of size one.\<close>

definition squeeze :: "'a tensor \<Rightarrow> 'a tensor" where
  "squeeze t = t\<lparr>shape := filter (\<lambda>d. d \<noteq> 1) (shape t)\<rparr>"

text \<open>The Python slice \<open>xs[:n]\<close> for an integer \<open>n\<close>; a negative \<open>n\<close> counts from the end.\<close>

definition py_take :: "int \<Rightarrow> 'a list \<Rightarrow> 'a list" where
  "py_take n xs = (if 0 \<le> n then take (nat n) xs else take (length xs - nat (- n)) xs)"

text \<open>
  The order of \<open>torch.sort\<close>, \<open>torch.topk\<close> and \<open>argmax\<close>: \<open>NaN\<close> counts as the greatest
  value.  \<open>desc_key\<close> is smaller on the greater element, so an ascending sort by it is a
  descending sort of the values.
\<close>

fun desc_key :: "fval \<Rightarrow> nat \<times> real" where
  "desc_key NaN = (0, 0)"
| "desc_key PInf = (1, 0)"
| "desc_key (Fin r) = (2, - r)"
| "desc_key NInf = (3, 0)"

text \<open>
  What \<open>torch.sort(xs, descending=True)\<close> guarantees of its indices: they are a permutation
  of the positions of \<open>xs\<close>, and the values read in that order descend.  The call has no
  \<open>stable=True\<close>, so the order of equal values is left to the implementation; the sort is
  therefore a parameter \<open>torch_sort\<close> of the functions that call it.
\<close>

definition sort_desc_spec :: "fval list \<Rightarrow> nat list \<Rightarrow> bool" where
  "sort_desc_spec xs idx \<longleftrightarrow>
     distinct idx \<and> set idx = {0..<length xs} \<and> sorted (map (\<lambda>i. desc_key (xs ! i)) idx)"

text \<open>One such sort, the one in which equal values keep their order.\<close>

definition sort_desc_indices :: "fval list \<Rightarrow> nat list" where
  "sort_desc_indices xs = sort_key (\<lambda>i. desc_key (xs ! i)) [0..<length xs]"

text \<open>The values of \<open>torch.topk(xs, k)\<close>: the \<open>k\<close> greatest values, in descending order.\<close>

definition topk_values :: "fval list \<Rightarrow> nat \<Rightarrow> fval list" where
  "topk_values xs k = take k (sort_key desc_key xs)"

text \<open>\<open>argmax\<close> along a dimension: the first position of a greatest element; it raises on an
  empty dimension.\<close>

fun argmax_aux :: "fval list \<Rightarrow> nat \<Rightarrow> nat \<Rightarrow> fval \<Rightarrow> nat" where
  "argmax_aux [] i bi bv = bi"
| "argmax_aux (x # xs) i bi bv =
     (if desc_key x < desc_key bv then argmax_aux xs (Suc i) i x
      else argmax_aux xs (Suc i) bi bv)"

definition argmax :: "fval list \<Rightarrow> error + nat" where
  "argmax xs = (case xs of [] \<Rightarrow> Inl IndexError | x # r \<Rightarrow> Inr (argmax_aux r 1 0 x))"

text \<open>The maximum that propagates \<open>NaN\<close>, as the reduction inside \<open>softmax\<close> does.\<close>

definition fmax :: "fval \<Rightarrow> fval \<Rightarrow> fval" where
  "fmax a b = (if a = NaN \<or> b = NaN then NaN else if flt a b then b else a)"

text \<open>\<open>F.softmax(xs, dim=-1)\<close> of a vector: \<open>exp (x - max) / sum\<close>.\<close>

definition softmax :: "fval list \<Rightarrow> fval list" where
  "softmax xs =
     (case xs of [] \<Rightarrow> []
      | x # r \<Rightarrow>
          (let m = foldl fmax x r;
               e = map (\<lambda>v. fexp (fsub v m)) xs;
               s = foldl fadd (hd e) (tl e)
           in map (\<lambda>v. fdiv v s) e))"

fun cumsum_from :: "fval \<Rightarrow> fval list \<Rightarrow> fval list" where
  "cumsum_from acc [] = []"
| "cumsum_from acc (x # xs) = fadd acc x # cumsum_from (fadd acc x) xs"

text \<open>\<open>torch.cumsum(xs, dim=-1)\<close>.\<close>

definition cumsum :: "fval list \<Rightarrow> fval list" where
  "cumsum xs = (case xs of [] \<Rightarrow> [] | x # r \<Rightarrow> x # cumsum_from x r)"

text \<open>\<open>idx[mask]\<close>: the entries of \<open>idx\<close> at the positions where the mask holds.\<close>

definition masked_select :: "'a list \<Rightarrow> bool list \<Rightarrow> 'a list" where
  "masked_select idx msk = map fst (filter snd (zip idx msk))"

text \<open>\<open>xs[indices] = v\<close> for a list of in-range indices.\<close>

definition index_fill :: "'a list \<Rightarrow> nat list \<Rightarrow> 'a \<Rightarrow> 'a list" where
  "index_fill xs indices v = foldl (\<lambda>a i. a[i := v]) xs indices"

text \<open>\<open>xs[mask] = v\<close> for a boolean mask of the same length.\<close>

definition mask_fill :: "'a list \<Rightarrow> bool list \<Rightarrow> 'a \<Rightarrow> 'a list" where
  "mask_fill xs msk v = map (\<lambda>(x, b). if b then v else x) (zip xs msk)"

section \<open>top_k_top_p_filtering\<close>

text \<open>
  The body of \<open>if top_k > 0:\<close>, for \<open>1 \<le> top_k \<le> len(logits)\<close>
  \<^verbatim>\<open>
        indices_to_remove = logits < torch.topk(logits, top_k)[0][..., -1, None]
        logits[indices_to_remove] = filter_value
  \<close>
\<close>

definition top_k_branch :: "fval list \<Rightarrow> nat \<Rightarrow> fval \<Rightarrow> fval list" where
  "top_k_branch logits top_k filter_value =
     (let indices_to_remove = map (\<lambda>x. flt x (last (topk_values logits top_k))) logits
      in mask_fill logits indices_to_remove filter_value)"

text \<open>
  The body of \<open>if top_p > 0.0:\<close>
  \<^verbatim>\<open>
        sorted_logits, sorted_indices = torch.sort(logits, descending=True)
        cumulative_probs = torch.cumsum(F.softmax(sorted_logits, dim=-1), dim=-1)
        sorted_indices_to_remove = cumulative_probs > top_p
        sorted_indices_to_remove[..., 1:] = sorted_indices_to_remove[..., :-1].clone()
        sorted_indices_to_remove[..., 0] = 0
        indices_to_remove = sorted_indices[sorted_indices_to_remove]
        logits[indices_to_remove] = filter_value
  \<close>
  The write to position 0 of an empty tensor raises \<open>IndexError\<close>.
\<close>

definition nucleus_indices_to_remove ::
  "(fval list \<Rightarrow> nat list) \<Rightarrow> fval list \<Rightarrow> real \<Rightarrow> error + nat list" where
  "nucleus_indices_to_remove torch_sort logits top_p =
     (let sorted_indices = torch_sort logits;
          sorted_logits = map (\<lambda>i. logits ! i) sorted_indices;
          cumulative_probs = cumsum (softmax sorted_logits);
          sorted_indices_to_remove = map (\<lambda>c. fgt c (Fin top_p)) cumulative_probs;
          shifted = take 1 sorted_indices_to_remove @ butlast sorted_indices_to_remove
      in if shifted = [] then Inl IndexError
         else Inr (masked_select sorted_indices (False # tl shifted)))"

definition nucleus_branch ::
  "(fval list \<Rightarrow> nat list) \<Rightarrow> fval list \<Rightarrow> real \<Rightarrow> fval \<Rightarrow> error + fval list" where
  "nucleus_branch torch_sort logits top_p filter_value =
     (case nucleus_indices_to_remove torch_sort logits top_p of
        Inl e \<Rightarrow> Inl e
      | Inr indices_to_remove \<Rightarrow> Inr (index_fill logits indices_to_remove filter_value))"

text \<open>
  \<^verbatim>\<open>
  def top_k_top_p_filtering(logits, top_k=0, top_p=0.0, filter_value=-float("Inf")):
      assert logits.dim() == 1
      top_k = min(top_k, logits.size(-1))
      if top_k > 0: ...
      if top_p > 0.0: ...
      return logits
  \<close>
\<close>

definition top_k_top_p_filtering ::
  "(fval list \<Rightarrow> nat list) \<Rightarrow> fval tensor \<Rightarrow> int \<Rightarrow> real \<Rightarrow> fval \<Rightarrow> error + fval tensor" where
  "top_k_top_p_filtering torch_sort logits top_k top_p filter_value =
     (if length (shape logits) \<noteq> 1 then Inl AssertionError
      else
        let top_k' = min top_k (int (last (shape logits)));
            logits1 = (if top_k' > 0 then top_k_branch (data logits) (nat top_k') filter_value
                       else data logits)
        in if top_p > 0 then
             (case nucleus_branch torch_sort logits1 top_p filter_value of
                Inl e \<Rightarrow> Inl e
              | Inr logits2 \<Rightarrow> Inr (logits\<lparr>data := logits2\<rparr>))
           else Inr (logits\<lparr>data := logits1\<rparr>))"

section \<open>Pix2seqTransformer.forward, inference branch\<close>

text \<open>
  The attributes of the module.  \<open>pred_eos\<close> is set by the constructor; \<open>top_p\<close>,
  \<open>num_bins\<close> and \<open>num_classes\<close> are read by \<open>forward\<close> but never set by the class, so
  each is present only if it was assigned from outside.
\<close>

record pix2seq =
  self_pred_eos :: bool
  self_top_p :: "real option"
  self_num_bins :: "nat option"
  self_num_classes :: "nat option"

text \<open>
  The learned parts and the random source are parameters.  \<open>decoder\<close> is
  \<open>self.decoder\<close> with the encoder memory, mask and positional encoding fixed; it maps the
  current input embedding and the key/value cache to its output and the new cache.
  \<open>vocal_classifier\<close> returns the similarity tensor of shape \<open>[1, bs, vocab_size]\<close> as its
  rows.  \<open>multinomial i p\<close> is the draw \<open>torch.multinomial(p, 1)\<close> of iteration \<open>i\<close>, and
  \<open>sort_descending\<close> is the index part of \<open>torch.sort(xs, descending=True)\<close>.
\<close>

record ('emb, 'kv, 'out) pix2seq_net =
  decoder :: "'emb \<Rightarrow> 'kv \<Rightarrow> 'out \<times> 'kv"
  vocal_classifier :: "'out \<Rightarrow> fval list list"
  vocab_size :: nat
  vocal_embed :: "nat list \<Rightarrow> 'emb"
  det_embed :: 'emb
  empty_kv :: 'kv
  multinomial :: "nat \<Rightarrow> fval list \<Rightarrow> error + nat"
  sort_descending :: "fval list \<Rightarrow> nat list"

text \<open>The variables of the decoding loop; \<open>ended\<close> is the source's \<open>end\<close>.\<close>

record ('emb, 'kv) decode_state =
  ended :: "bool list"
  end_lens :: "int list"
  input_embed :: 'emb
  pre_kv :: 'kv
  pred_seq_logits :: "fval list list list"

datatype 'a loop_exit = Break 'a | Continue 'a

fun sequence :: "(error + 'a) list \<Rightarrow> error + 'a list" where
  "sequence [] = Inr []"
| "sequence (Inl e # _) = Inl e"
| "sequence (Inr x # xs) = (case sequence xs of Inl e \<Rightarrow> Inl e | Inr ys \<Rightarrow> Inr (x # ys))"

text \<open>\<open>similarity[:, :, :n].argmax(dim=-1)\<close>: one index per row; an empty slice raises.\<close>

definition argmax_rows :: "int \<Rightarrow> nat \<Rightarrow> fval list list \<Rightarrow> error + nat list" where
  "argmax_rows n V rows =
     (if py_take n [0..<V] = [] then Inl IndexError
      else sequence (map (\<lambda>r. argmax (py_take n r)) rows))"

text \<open>Broadcasting a one-dimensional tensor against one of length \<open>n\<close>, written in place.\<close>

definition broadcast_to :: "nat \<Rightarrow> 'a list \<Rightarrow> error + 'a list" where
  "broadcast_to n xs =
     (if length xs = n then Inr xs
      else if length xs = 1 then Inr (replicate n (hd xs))
      else Inl RuntimeError)"

text \<open>
  \<^verbatim>\<open>
                if self.pred_eos:
                    is_eos = similarity[:, :, : num_vocal - 1].argmax(dim=-1)
                    stop_state = is_eos.squeeze(0).eq(num_vocal - 2)
                    end_lens += seq_i * (~end * stop_state)
                    end = (stop_state + end).bool()
                    if end.all() and seq_i > 4:
                        break
  \<close>
\<close>

definition eos_check ::
  "int \<Rightarrow> nat \<Rightarrow> nat \<Rightarrow> fval list list \<Rightarrow> bool list \<Rightarrow> int list
     \<Rightarrow> error + (bool list \<times> int list) loop_exit" where
  "eos_check num_vocal V seq_i similarity end0 lens0 =
     (case argmax_rows (num_vocal - 1) V similarity of
        Inl e \<Rightarrow> Inl e
      | Inr is_eos \<Rightarrow>
          (case broadcast_to (length end0) (map (\<lambda>i. int i = num_vocal - 2) is_eos) of
             Inl e \<Rightarrow> Inl e
           | Inr stop_state \<Rightarrow>
               (let lens1 = map (\<lambda>(l, e, s). l + int seq_i * (if \<not> e \<and> s then 1 else 0))
                              (zip lens0 (zip end0 stop_state));
                    end1 = map (\<lambda>(s, e). s \<or> e) (zip stop_state end0)
                in if list_all id end1 \<and> seq_i > 4 then Inr (Break (end1, lens1))
                   else Inr (Continue (end1, lens1)))))"

definition similarity_tensor :: "nat \<Rightarrow> fval list list \<Rightarrow> fval tensor" where
  "similarity_tensor V rows = \<lparr>shape = [1, length rows, V], data = concat rows\<rparr>"

text \<open>
  \<^verbatim>\<open>
                if nucleus_sampling:
                    filtered_logits = top_k_top_p_filtering(
                        torch.squeeze(similarity), top_p=self.top_p)
                    probabilities = F.softmax(filtered_logits, dim=-1)
                    pred_token = torch.multinomial(probabilities, 1).clamp(
                        max=self.num_bins + self.num_classes)
                    pred_similarity = torch.zeros_like(similarity)
                    pred_similarity[:, :, pred_token] = 1.0
                    pred_token = pred_token.view(1, -1)
                    pred_seq_logits.append(pred_similarity.transpose(0, 1))
  \<close>
  The result is the predicted token tensor and the appended rows.  The filtering writes
  into \<open>similarity\<close> through the squeezed view, but only the shape of \<open>similarity\<close> is read
  afterwards on this path.
\<close>

definition nucleus_sample ::
  "pix2seq \<Rightarrow> ('emb, 'kv, 'out) pix2seq_net \<Rightarrow> nat \<Rightarrow> fval list list
     \<Rightarrow> error + (nat list \<times> fval list list)" where
  "nucleus_sample M net seq_i similarity =
     (case self_top_p M of
        None \<Rightarrow> Inl AttributeError
      | Some p \<Rightarrow>
          (case top_k_top_p_filtering (sort_descending net)
                  (squeeze (similarity_tensor (vocab_size net) similarity)) 0 p NInf of
             Inl e \<Rightarrow> Inl e
           | Inr filtered_logits \<Rightarrow>
               (case multinomial net seq_i (softmax (data filtered_logits)) of
                  Inl e \<Rightarrow> Inl e
                | Inr drawn \<Rightarrow>
                    (case self_num_bins M of
                       None \<Rightarrow> Inl AttributeError
                     | Some nb \<Rightarrow>
                         (case self_num_classes M of
                            None \<Rightarrow> Inl AttributeError
                          | Some nc \<Rightarrow>
                              (let pred_token = min drawn (nb + nc)
                               in if pred_token < vocab_size net
                                  then Inr ([pred_token],
                                         map (\<lambda>r. (map (\<lambda>_. Fin 0) r)[pred_token := Fin 1])
                                           similarity)
                                  else Inl IndexError))))))"

text \<open>
  \<^verbatim>\<open>
                else:
                    pred_token = similarity[:, :, : num_vocal - 2].argmax(dim=-1)
                    pred_seq_logits.append(similarity.transpose(0, 1))
  \<close>
\<close>

definition greedy_sample ::
  "int \<Rightarrow> nat \<Rightarrow> fval list list \<Rightarrow> error + (nat list \<times> fval list list)" where
  "greedy_sample num_vocal V similarity =
     (case argmax_rows (num_vocal - 2) V similarity of
        Inl e \<Rightarrow> Inl e
      | Inr pred_token \<Rightarrow> Inr (pred_token, similarity))"

text \<open>The end-of-sequence block runs only under \<open>self.pred_eos\<close>.\<close>

definition eos_gate ::
  "pix2seq \<Rightarrow> int \<Rightarrow> nat \<Rightarrow> nat \<Rightarrow> fval list list \<Rightarrow> ('emb, 'kv) decode_state
     \<Rightarrow> error + (bool list \<times> int list) loop_exit" where
  "eos_gate M num_vocal V seq_i similarity st =
     (if self_pred_eos M
      then eos_check num_vocal V seq_i similarity (ended st) (end_lens st)
      else Inr (Continue (ended st, end_lens st)))"

text \<open>The choice of the next token, \<open>if nucleus_sampling: ... else: ...\<close>.\<close>

definition sample_token ::
  "pix2seq \<Rightarrow> ('emb, 'kv, 'out) pix2seq_net \<Rightarrow> int \<Rightarrow> bool \<Rightarrow> nat \<Rightarrow> fval list list
     \<Rightarrow> error + (nat list \<times> fval list list)" where
  "sample_token M net num_vocal nucleus_sampling seq_i similarity =
     (if nucleus_sampling then nucleus_sample M net seq_i similarity
      else greedy_sample num_vocal (vocab_size net) similarity)"

text \<open>One iteration of \<open>for seq_i in range(500)\<close>.\<close>

definition decode_step ::
  "pix2seq \<Rightarrow> ('emb, 'kv, 'out) pix2seq_net \<Rightarrow> int \<Rightarrow> bool \<Rightarrow> nat
     \<Rightarrow> ('emb, 'kv) decode_state \<Rightarrow> error + ('emb, 'kv) decode_state loop_exit" where
  "decode_step M net num_vocal nucleus_sampling seq_i st =
     (let (out_dec, kv) = decoder net (input_embed st) (pre_kv st);
          similarity = vocal_classifier net out_dec;
          st1 = st\<lparr>pre_kv := kv\<rparr>
      in case eos_gate M num_vocal (vocab_size net) seq_i similarity st of
           Inl e \<Rightarrow> Inl e
         | Inr (Break (end1, lens1)) \<Rightarrow> Inr (Break (st1\<lparr>ended := end1, end_lens := lens1\<rparr>))
         | Inr (Continue (end1, lens1)) \<Rightarrow>
             (case sample_token M net num_vocal nucleus_sampling seq_i similarity of
                Inl e \<Rightarrow> Inl e
              | Inr (pred_token, appended) \<Rightarrow>
                  Inr (Continue (st1\<lparr>ended := end1, end_lens := lens1,
                         pred_seq_logits := pred_seq_logits st @ [appended],
                         input_embed := vocal_embed net pred_token\<rparr>))))"

function decode_loop ::
  "pix2seq \<Rightarrow> ('emb, 'kv, 'out) pix2seq_net \<Rightarrow> int \<Rightarrow> bool \<Rightarrow> nat
     \<Rightarrow> ('emb, 'kv) decode_state \<Rightarrow> error + ('emb, 'kv) decode_state" where
  "decode_loop M net num_vocal nucleus_sampling seq_i st =
     (if seq_i < 500 then
        (case decode_step M net num_vocal nucleus_sampling seq_i st of
           Inl e \<Rightarrow> Inl e
         | Inr (Break st') \<Rightarrow> Inr st'
         | Inr (Continue st') \<Rightarrow> decode_loop M net num_vocal nucleus_sampling (Suc seq_i) st')
      else Inr st)"
  by pat_completeness auto
termination
  by (relation "measure (\<lambda>(M, net, num_vocal, nucleus_sampling, seq_i, st). 500 - seq_i)") auto

text \<open>
  \<^verbatim>\<open>
            end = torch.zeros(bs).bool()
            end_lens = torch.zeros(bs).long()
            input_embed = det_embed.weight.unsqueeze(0).repeat(bs, 1, 1).transpose(0, 1)
            pred_seq_logits = []
  \<close>
\<close>

definition init_state :: "('emb, 'kv, 'out) pix2seq_net \<Rightarrow> nat \<Rightarrow> ('emb, 'kv) decode_state" where
  "init_state net bs =
     \<lparr>ended = replicate bs False, end_lens = replicate bs 0, input_embed = det_embed net,
      pre_kv = empty_kv net, pred_seq_logits = []\<rparr>"

text \<open>\<open>torch.cat(pred_seq_logits, dim=1)\<close>: from one \<open>[bs, 1, V]\<close> tensor for each step to one
  sequence of rows for each sample.\<close>

definition cat_steps :: "fval list list list \<Rightarrow> error + fval list list list" where
  "cat_steps steps =
     (case steps of
        [] \<Rightarrow> Inl RuntimeError
      | s # r \<Rightarrow>
          if list_all (\<lambda>t. length t = length s) r
          then Inr (map (\<lambda>b. map (\<lambda>t. t ! b) steps) [0..<length s])
          else Inl RuntimeError)"

text \<open>
  \<^verbatim>\<open>
            if not self.pred_eos:
                end_lens = end_lens.fill_(500)
            pred_seq_logits = torch.cat(pred_seq_logits, dim=1)
            pred_seq_logits = [
                psl[:end_idx] for end_idx, psl in zip(end_lens, pred_seq_logits)]
  \<close>
\<close>

definition forward_eval ::
  "pix2seq \<Rightarrow> ('emb, 'kv, 'out) pix2seq_net \<Rightarrow> int \<Rightarrow> bool \<Rightarrow> nat
     \<Rightarrow> error + fval list list list" where
  "forward_eval M net num_vocal nucleus_sampling bs =
     (case decode_loop M net num_vocal nucleus_sampling 0 (init_state net bs) of
        Inl e \<Rightarrow> Inl e
      | Inr st \<Rightarrow>
          (let lens = (if \<not> self_pred_eos M then map (\<lambda>_. 500) (end_lens st) else end_lens st)
           in case cat_steps (pred_seq_logits st) of
                Inl e \<Rightarrow> Inl e
              | Inr seqs \<Rightarrow> Inr (map (\<lambda>(end_idx, psl). py_take end_idx psl) (zip lens seqs))))"

section \<open>Example inputs\<close>

text \<open>A module with every attribute assigned, and a network over trivial embeddings whose
  classifier always returns one row of two equal logits and whose draw is always token 0.\<close>

definition example_module :: pix2seq where
  "example_module = \<lparr>self_pred_eos = True, self_top_p = Some (1 / 4), self_num_bins = Some 1,
         self_num_classes = Some 1\<rparr>"

definition example_net :: "(unit, unit, unit) pix2seq_net" where
  "example_net = \<lparr>decoder = (\<lambda>e k. ((), ())), vocal_classifier = (\<lambda>out. [[Fin 0, Fin 0]]),
           vocab_size = 2, vocal_embed = (\<lambda>t. ()), det_embed = (), empty_kv = (),
           multinomial = (\<lambda>i p. Inr 0), sort_descending = sort_desc_indices\<rparr>"

section \<open>Invariant of the decoding loop\<close>

text \<open>
  Before iteration \<open>i\<close>: one entry was appended for each completed iteration; a sample
  that has not ended has length 0; a sample that has ended has the number of an earlier
  iteration as its length; and once an iteration after the fifth has run without a break,
  some sample has not ended.
\<close>

definition decode_inv :: "pix2seq \<Rightarrow> nat \<Rightarrow> nat \<Rightarrow> ('emb, 'kv) decode_state \<Rightarrow> bool" where
  "decode_inv M bs i st \<longleftrightarrow>
     length (pred_seq_logits st) = i \<and> length (ended st) = bs \<and> length (end_lens st) = bs
     \<and> (\<forall>b<bs. \<not> ended st ! b \<longrightarrow> end_lens st ! b = 0)
     \<and> (\<forall>b<bs. ended st ! b \<longrightarrow> 0 \<le> end_lens st ! b \<and> end_lens st ! b < int i)
     \<and> (self_pred_eos M \<and> 5 < i \<longrightarrow> \<not> list_all id (ended st))
     \<and> (\<not> self_pred_eos M \<longrightarrow> (\<forall>b<bs. \<not> ended st ! b))"

text \<open>
  The state \<open>st'\<close> at the exit of the loop, started in \<open>st\<close>: fewer than 500 appended
  entries mean a break, which happens only under \<open>pred_eos\<close>, after at least five
  iterations, with every sample ended, and at iteration 5 or at the iteration in which the
  last sample ended.
\<close>

definition decode_final ::
  "pix2seq \<Rightarrow> nat \<Rightarrow> ('emb, 'kv) decode_state \<Rightarrow> ('emb, 'kv) decode_state \<Rightarrow> bool" where
  "decode_final M bs st st' \<longleftrightarrow>
     length (pred_seq_logits st') \<le> 500
     \<and> length (ended st') = bs \<and> length (end_lens st') = bs
     \<and> (\<forall>b<bs. \<not> ended st' ! b \<longrightarrow> end_lens st' ! b = 0)
     \<and> (\<forall>b<bs. 0 \<le> end_lens st' ! b
            \<and> end_lens st' ! b \<le> int (length (pred_seq_logits st')))
     \<and> (length (pred_seq_logits st') < 500 \<longrightarrow>
          self_pred_eos M \<and> 5 \<le> length (pred_seq_logits st') \<and> list_all id (ended st')
          \<and> (length (pred_seq_logits st') = 5
               \<or> (\<exists>b<bs. end_lens st' ! b = int (length (pred_seq_logits st')))))
     \<and> (length (pred_seq_logits st') = 500 \<and> self_pred_eos M \<longrightarrow>
          \<not> list_all id (ended st'))
     \<and> (\<forall>b<bs. ended st ! b \<longrightarrow> ended st' ! b \<and> end_lens st' ! b = end_lens st ! b)"

text \<open>The end-of-sequence class is forced: in every output of the classifier, every row has
  \<open>num_vocal - 2\<close> as the \<open>argmax\<close> of its first \<open>num_vocal - 1\<close> logits.\<close>

definition eos_forced :: "('emb, 'kv, 'out) pix2seq_net \<Rightarrow> int \<Rightarrow> bool" where
  "eos_forced net num_vocal \<longleftrightarrow>
     (\<forall>out. \<forall>r \<in> set (vocal_classifier net out).
        \<exists>k. argmax (py_take (num_vocal - 1) r) = Inr k \<and> int k = num_vocal - 2)"


text \<open>The greedy path does not raise: the classifier returns one row for each sample and
  both \<open>argmax\<close> calls are defined on every output.\<close>

definition greedy_defined :: "('emb, 'kv, 'out) pix2seq_net \<Rightarrow> int \<Rightarrow> nat \<Rightarrow> bool" where
  "greedy_defined net num_vocal bs \<longleftrightarrow>
     (\<forall>out. length (vocal_classifier net out) = bs
        \<and> (\<exists>is_eos. argmax_rows (num_vocal - 1) (vocab_size net) (vocal_classifier net out)
               = Inr is_eos)
        \<and> (\<exists>toks. argmax_rows (num_vocal - 2) (vocab_size net) (vocal_classifier net out)
               = Inr toks))"

text \<open>No row of any output of the classifier has the end-of-sequence class as the
  \<open>argmax\<close> of its first \<open>num_vocal - 1\<close> logits.\<close>

definition eos_never :: "('emb, 'kv, 'out) pix2seq_net \<Rightarrow> int \<Rightarrow> bool" where
  "eos_never net num_vocal \<longleftrightarrow>
     (\<forall>out. \<forall>r \<in> set (vocal_classifier net out).
        \<forall>k. argmax (py_take (num_vocal - 1) r) = Inr k \<longrightarrow> int k \<noteq> num_vocal - 2)"

text \<open>A network whose classifier always returns one row whose greatest logit among the
  first two is at index 1.\<close>

definition example_net_eos :: "(unit, unit, unit) pix2seq_net" where
  "example_net_eos = \<lparr>decoder = (\<lambda>e k. ((), ())),
           vocal_classifier = (\<lambda>out. [[Fin 0, Fin 1, Fin 0]]),
           vocab_size = 3, vocal_embed = (\<lambda>t. ()), det_embed = (), empty_kv = (),
           multinomial = (\<lambda>i p. Inr 0), sort_descending = sort_desc_indices\<rparr>"

section \<open>DeformableDetrTransformerDecoder.forward\<close>

text \<open>
  A tensor of shape \<open>(bs, num_query, k)\<close>, such as the reference points and the output of a
  regression branch: its three sizes, its rows, and whether it is attached to the autograd
  graph (\<open>requires_grad\<close>).
\<close>

record points =
  pt_batch :: nat
  pt_query :: nat
  pt_coord :: nat
  pt_rows :: "fval list list list"
  pt_grad :: bool

text \<open>The valid ratios, of shape \<open>(bs, num_levels, k)\<close> with \<open>k = 2\<close>.\<close>

record ratios =
  vr_batch :: nat
  vr_levels :: nat
  vr_coord :: nat
  vr_rows :: "fval list list list"

text \<open>Broadcasting of one dimension: equal sizes, or one of them is 1.\<close>

definition bdim :: "nat \<Rightarrow> nat \<Rightarrow> error + nat" where
  "bdim a b = (if a = b then Inr a else if a = 1 then Inr b else if b = 1 then Inr a
               else Inl RuntimeError)"

text \<open>Expanding a dimension of size 1 to size \<open>n\<close>; a dimension of size \<open>n\<close> is kept.\<close>

definition expand :: "nat \<Rightarrow> 'a list \<Rightarrow> 'a list" where
  "expand n xs = (if length xs = n then xs else concat (replicate n xs))"

definition zip3_with ::
  "(fval \<Rightarrow> fval \<Rightarrow> fval) \<Rightarrow> nat \<Rightarrow> nat \<Rightarrow> nat
     \<Rightarrow> fval list list list \<Rightarrow> fval list list list \<Rightarrow> fval list list list" where
  "zip3_with f B Q C xs ys =
     map (\<lambda>(xb, yb).
        map (\<lambda>(xq, yq). map (\<lambda>(a, b). f a b) (zip (expand C xq) (expand C yq)))
          (zip (expand Q xb) (expand Q yb)))
       (zip (expand B xs) (expand B ys))"

text \<open>\<open>a + b\<close> with broadcasting; the sum is attached when one of its arguments is.\<close>

definition pt_add :: "points \<Rightarrow> points \<Rightarrow> error + points" where
  "pt_add a b =
     (case bdim (pt_batch a) (pt_batch b) of
        Inl e \<Rightarrow> Inl e
      | Inr B \<Rightarrow>
          (case bdim (pt_query a) (pt_query b) of
             Inl e \<Rightarrow> Inl e
           | Inr Q \<Rightarrow>
               (case bdim (pt_coord a) (pt_coord b) of
                  Inl e \<Rightarrow> Inl e
                | Inr C \<Rightarrow>
                    Inr \<lparr>pt_batch = B, pt_query = Q, pt_coord = C,
                         pt_rows = zip3_with fadd B Q C (pt_rows a) (pt_rows b),
                         pt_grad = (pt_grad a \<or> pt_grad b)\<rparr>)))"

text \<open>An elementwise function, such as \<open>sigmoid\<close> and \<open>inverse_sigmoid\<close>.\<close>

definition pt_map :: "(fval \<Rightarrow> fval) \<Rightarrow> points \<Rightarrow> points" where
  "pt_map f p = p\<lparr>pt_rows := map (map (map f)) (pt_rows p)\<rparr>"

definition detach :: "points \<Rightarrow> points" where
  "detach p = p\<lparr>pt_grad := False\<rparr>"

text \<open>The slice \<open>t[..., :2]\<close>.\<close>

definition pt_slice2 :: "points \<Rightarrow> points" where
  "pt_slice2 p = p\<lparr>pt_coord := min (pt_coord p) 2, pt_rows := map (map (take 2)) (pt_rows p)\<rparr>"

text \<open>The assignment \<open>t[..., :2] = v\<close> in place: every size of \<open>v\<close> is the size of the slice
  or 1.\<close>

definition pt_assign2 :: "points \<Rightarrow> points \<Rightarrow> error + points" where
  "pt_assign2 t v =
     (if (pt_batch v = pt_batch t \<or> pt_batch v = 1)
         \<and> (pt_query v = pt_query t \<or> pt_query v = 1)
         \<and> (pt_coord v = min (pt_coord t) 2 \<or> pt_coord v = 1)
      then Inr (t\<lparr>pt_rows :=
                  map (\<lambda>(tb, vb).
                     map (\<lambda>(tq, vq). expand (min (pt_coord t) 2) vq @ drop 2 tq)
                       (zip tb (expand (pt_query t) vb)))
                    (zip (pt_rows t) (expand (pt_batch t) (pt_rows v))),
                pt_grad := (pt_grad t \<or> pt_grad v)\<rparr>)
      else Inl RuntimeError)"

text \<open>
  \<^verbatim>\<open>
                tmp = reg_branches[lid](output)
                if reference_points.shape[-1] == 4:
                    new_reference_points = tmp + inverse_sigmoid(reference_points)
                    new_reference_points = new_reference_points.sigmoid()
                else:
                    assert reference_points.shape[-1] == 2
                    new_reference_points = tmp
                    new_reference_points[..., :2] = tmp[..., :2] + inverse_sigmoid(
                        reference_points)
                    new_reference_points = new_reference_points.sigmoid()
                reference_points = new_reference_points.detach()
  \<close>
\<close>

definition update_reference :: "points \<Rightarrow> points \<Rightarrow> error + points" where
  "update_reference tmp reference_points =
     (if pt_coord reference_points = 4 then
        (case pt_add tmp (pt_map (\<lambda>x. inverse_sigmoid x default_eps) reference_points) of
           Inl e \<Rightarrow> Inl e
         | Inr new_reference_points \<Rightarrow> Inr (detach (pt_map fsigmoid new_reference_points)))
      else if pt_coord reference_points = 2 then
        (case pt_add (pt_slice2 tmp)
                (pt_map (\<lambda>x. inverse_sigmoid x default_eps) reference_points) of
           Inl e \<Rightarrow> Inl e
         | Inr v \<Rightarrow>
             (case pt_assign2 tmp v of
                Inl e \<Rightarrow> Inl e
              | Inr new_reference_points \<Rightarrow>
                  Inr (detach (pt_map fsigmoid new_reference_points))))
      else Inl AssertionError)"

text \<open>\<open>r[:, :, None] * v[:, None]\<close> for \<open>r\<close> of shape \<open>(bs, nq, d)\<close> and \<open>v\<close> of shape
  \<open>(bs, nl, k)\<close>: the result has shape \<open>(bs, nq, nl, d)\<close>.\<close>

definition scale_points :: "points \<Rightarrow> ratios \<Rightarrow> error + fval list list list list" where
  "scale_points r v =
     (case bdim (pt_batch r) (vr_batch v) of
        Inl e \<Rightarrow> Inl e
      | Inr B \<Rightarrow>
          (case bdim (pt_coord r) (vr_coord v) of
             Inl e \<Rightarrow> Inl e
           | Inr C \<Rightarrow>
               Inr (map (\<lambda>(rb, vb).
                      map (\<lambda>rq. map (\<lambda>vl. map (\<lambda>(a, b). fmul a b)
                                             (zip (expand C rq) (expand C vl))) vb) rb)
                     (zip (expand B (pt_rows r)) (expand B (vr_rows v))))))"

text \<open>
  \<^verbatim>\<open>
            if reference_points.shape[-1] == 4:
                reference_points_input = (reference_points[:, :, None]
                    * torch.cat([valid_ratios, valid_ratios], -1)[:, None])
            else:
                assert reference_points.shape[-1] == 2
                reference_points_input = (
                    reference_points[:, :, None] * valid_ratios[:, None])
  \<close>
\<close>

definition reference_points_input ::
  "points \<Rightarrow> ratios \<Rightarrow> error + fval list list list list" where
  "reference_points_input reference_points valid_ratios =
     (if pt_coord reference_points = 4 then
        scale_points reference_points
          (valid_ratios\<lparr>vr_coord := 2 * vr_coord valid_ratios,
                         vr_rows := map (map (\<lambda>l. l @ l)) (vr_rows valid_ratios)\<rparr>)
      else if pt_coord reference_points = 2 then scale_points reference_points valid_ratios
      else Inl AssertionError)"

text \<open>The variables of the loop over the layers: \<open>output\<close>, \<open>reference_points\<close>,
  \<open>intermediate\<close> and \<open>intermediate_reference_points\<close>.\<close>

record 'q decoder_state =
  st_output :: 'q
  st_reference_points :: points
  st_intermediate :: "'q list"
  st_intermediate_reference_points :: "points list"

text \<open>
  The loop \<open>for lid, layer in enumerate(self.layers)\<close>.  A layer is a function of the
  current output and of \<open>reference_points_input\<close>, its other arguments being fixed.  A
  regression branch is a function of the output of its layer; the two \<open>permute(1, 0, 2)\<close>
  around it are part of that function.
\<close>

fun decoder_layers ::
  "ratios \<Rightarrow> ('q \<Rightarrow> points) list option \<Rightarrow> bool \<Rightarrow> nat
     \<Rightarrow> ('q \<Rightarrow> fval list list list list \<Rightarrow> 'q) list \<Rightarrow> 'q decoder_state
     \<Rightarrow> error + 'q decoder_state" where
  "decoder_layers valid_ratios reg_branches return_intermediate lid [] st = Inr st"
| "decoder_layers valid_ratios reg_branches return_intermediate lid (layer # layers) st =
     (case reference_points_input (st_reference_points st) valid_ratios of
        Inl e \<Rightarrow> Inl e
      | Inr rpi \<Rightarrow>
          (let out = layer (st_output st) rpi
           in case (case reg_branches of
                      None \<Rightarrow> Inr (st_reference_points st)
                    | Some branches \<Rightarrow>
                        if lid < length branches
                        then update_reference ((branches ! lid) out) (st_reference_points st)
                        else Inl IndexError) of
                Inl e \<Rightarrow> Inl e
              | Inr ref \<Rightarrow>
                  decoder_layers valid_ratios reg_branches return_intermediate (Suc lid) layers
                    (if return_intermediate
                     then st\<lparr>st_output := out, st_reference_points := ref,
                            st_intermediate := st_intermediate st @ [out],
                            st_intermediate_reference_points :=
                              st_intermediate_reference_points st @ [ref]\<rparr>
                     else st\<lparr>st_output := out, st_reference_points := ref\<rparr>)))"

datatype 'q decoder_result = Last 'q points | Stacked "'q list" "points list"

text \<open>\<open>torch.stack\<close> raises on an empty list and on tensors of different shapes.\<close>

definition stackable :: "points list \<Rightarrow> bool" where
  "stackable ps \<longleftrightarrow>
     (case ps of [] \<Rightarrow> False
      | p # r \<Rightarrow> list_all (\<lambda>q. pt_batch q = pt_batch p \<and> pt_query q = pt_query p
                               \<and> pt_coord q = pt_coord p) r)"

definition decoder_forward ::
  "('q \<Rightarrow> fval list list list list \<Rightarrow> 'q) list \<Rightarrow> bool \<Rightarrow> 'q \<Rightarrow> points \<Rightarrow> ratios
     \<Rightarrow> ('q \<Rightarrow> points) list option \<Rightarrow> error + 'q decoder_result" where
  "decoder_forward layers return_intermediate query ref valid_ratios reg_branches =
     (case decoder_layers valid_ratios reg_branches return_intermediate 0 layers
             \<lparr>st_output = query, st_reference_points = ref, st_intermediate = [],
              st_intermediate_reference_points = []\<rparr> of
        Inl e \<Rightarrow> Inl e
      | Inr st \<Rightarrow>
          if return_intermediate then
            (if st_intermediate st \<noteq> [] \<and> stackable (st_intermediate_reference_points st)
             then Inr (Stacked (st_intermediate st) (st_intermediate_reference_points st))
             else Inl RuntimeError)
          else Inr (Last (st_output st) (st_reference_points st)))"

text \<open>A tensor whose rows agree with its sizes.\<close>

definition pt_wf :: "points \<Rightarrow> bool" where
  "pt_wf p \<longleftrightarrow>
     length (pt_rows p) = pt_batch p
     \<and> (\<forall>rb \<in> set (pt_rows p). length rb = pt_query p
           \<and> (\<forall>pt \<in> set rb. length pt = pt_coord p))"

text \<open>A property of every element of a tensor.\<close>

definition all3 :: "(fval \<Rightarrow> bool) \<Rightarrow> fval list list list \<Rightarrow> bool" where
  "all3 P xs \<longleftrightarrow> (\<forall>rb \<in> set xs. \<forall>pt \<in> set rb. \<forall>e \<in> set pt. P e)"

definition in_unit :: "fval \<Rightarrow> bool" where
  "in_unit e \<longleftrightarrow> (case e of Fin r \<Rightarrow> 0 \<le> r \<and> r \<le> 1 | _ \<Rightarrow> False)"

text \<open>A refined reference: every coordinate is a real in \<open>[0, 1]\<close> and the tensor is
  detached from the autograd graph.\<close>

definition refined :: "points \<Rightarrow> bool" where
  "refined p \<longleftrightarrow> all3 in_unit (pt_rows p) \<and> \<not> pt_grad p"

text \<open>Reference points of four and of two coordinates, the output of a regression branch
  and valid ratios, each for one sample and one query.\<close>

definition example_ref4 :: points where
  "example_ref4 = \<lparr>pt_batch = 1, pt_query = 1, pt_coord = 4,
     pt_rows = [[[Fin (1 / 2), Fin (1 / 2), Fin (1 / 2), Fin (1 / 2)]]], pt_grad = False\<rparr>"

definition example_ref2 :: points where
  "example_ref2 = \<lparr>pt_batch = 1, pt_query = 1, pt_coord = 2,
     pt_rows = [[[Fin (1 / 2), Fin (1 / 2)]]], pt_grad = False\<rparr>"

definition example_tmp :: points where
  "example_tmp = \<lparr>pt_batch = 1, pt_query = 1, pt_coord = 4,
     pt_rows = [[[Fin 0, Fin 0, Fin 0, Fin 0]]], pt_grad = True\<rparr>"

definition example_ratios :: ratios where
  "example_ratios = \<lparr>vr_batch = 1, vr_levels = 1, vr_coord = 2, vr_rows = [[[Fin 1, Fin 1]]]\<rparr>"

text \<open>No element is a \<open>NaN\<close>.\<close>

definition no_NaN :: "points \<Rightarrow> bool" where
  "no_NaN p \<longleftrightarrow> all3 (\<lambda>e. e \<noteq> NaN) (pt_rows p)"


section \<open>DeformableDetrTransformer.gen_encoder_output_proposals\<close>













section \<open>VectorQuantizer.forward\<close>

text \<open>The module: \<open>_embedding_dim\<close>, \<open>_num_embeddings\<close>, the rows of \<open>_embedding.weight\<close>
  and \<open>_commitment_cost\<close>.\<close>

record vector_quantizer =
  embedding_dim :: nat
  num_embeddings :: nat
  embedding_weight :: "real list list"
  commitment_cost :: real


text \<open>\<open>torch.argmin\<close> along a dimension: the first position of a least element; it raises on
  an empty dimension.\<close>

fun argmin_aux :: "real list \<Rightarrow> nat \<Rightarrow> nat \<Rightarrow> real \<Rightarrow> nat" where
  "argmin_aux [] i bi bv = bi"
| "argmin_aux (x # xs) i bi bv =
     (if x < bv then argmin_aux xs (Suc i) i x else argmin_aux xs (Suc i) bi bv)"

definition argmin :: "real list \<Rightarrow> error + nat" where
  "argmin xs = (case xs of [] \<Rightarrow> Inl IndexError | x # r \<Rightarrow> Inr (argmin_aux r 1 0 x))"

text \<open>One row of \<open>torch.matmul(a, w)\<close>, for a row \<open>a\<close> of \<open>K\<close> entries and \<open>w\<close> of shape
  \<open>(K, D)\<close>.\<close>

definition row_matmul :: "nat \<Rightarrow> nat \<Rightarrow> real list \<Rightarrow> real list list \<Rightarrow> real list" where
  "row_matmul K D a w = map (\<lambda>d. sum_list (map (\<lambda>j. a ! j * w ! j ! d) [0..<K])) [0..<D]"

text \<open>A row of \<open>encodings\<close> after \<open>scatter_(1, encoding_indices, 1)\<close>.\<close>

definition one_hot :: "nat \<Rightarrow> nat \<Rightarrow> real list" where
  "one_hot K i = map (\<lambda>j. if j = i then 1 else 0) [0..<K]"

text \<open>\<open>F.mse_loss(a, b)\<close>, the mean of the squared differences; the mean of no element is
  \<open>NaN\<close>.\<close>

definition mse_loss :: "real list \<Rightarrow> real list \<Rightarrow> fval" where
  "mse_loss a b =
     (if a = [] then NaN
      else Fin (sum_list (map (\<lambda>(x, y). (x - y)\<^sup>2) (zip a b)) / real (length a)))"

text \<open>
  \<^verbatim>\<open>
        input_shape = inputs.shape
        flat_input = inputs.view(-1, self._embedding_dim)
        distances = (
            torch.sum(flat_input ** 2, dim=1, keepdim=True)
            + torch.sum(self._embedding.weight ** 2, dim=1)
            - 2 * torch.matmul(flat_input, self._embedding.weight.t()))
        encoding_indices = torch.argmin(distances, dim=1).unsqueeze(1)
        encodings = torch.zeros(encoding_indices.shape[0], self._num_embeddings)
        encodings.scatter_(1, encoding_indices, 1)
        quantized = torch.matmul(encodings, self._embedding.weight).view(input_shape)
        e_latent_loss = F.mse_loss(quantized.detach(), inputs)
        q_latent_loss = F.mse_loss(quantized, inputs.detach())
        loss = q_latent_loss + self._commitment_cost * e_latent_loss
        quantized = inputs + (quantized - inputs).detach()
        return quantized, loss, encoding_indices
  \<close>
  The \<open>view\<close> raises when the number of elements is not a multiple of the embedding
  dimension, and \<open>argmin\<close> raises on an empty codebook.
\<close>

definition flat_input :: "nat \<Rightarrow> real list \<Rightarrow> real list list" where
  "flat_input D xs = map (\<lambda>i. take D (drop (i * D) xs)) [0..<length xs div D]"

definition distances :: "real list list \<Rightarrow> real list list \<Rightarrow> real list list" where
  "distances rows weight =
     map (\<lambda>x. map (\<lambda>e. sum_list (map (\<lambda>a. a\<^sup>2) x) + sum_list (map (\<lambda>a. a\<^sup>2) e)
                        - 2 * sum_list (map (\<lambda>(a, b). a * b) (zip x e))) weight) rows"

definition VectorQuantizer_forward ::
  "vector_quantizer \<Rightarrow> real tensor \<Rightarrow> error + (real tensor \<times> fval \<times> nat list)" where
  "VectorQuantizer_forward vq inputs =
     (if embedding_dim vq = 0 \<or> length (data inputs) mod embedding_dim vq \<noteq> 0
      then Inl RuntimeError
      else if num_embeddings vq = 0 then Inl IndexError
      else
        (case sequence (map argmin
                 (distances (flat_input (embedding_dim vq) (data inputs))
                    (embedding_weight vq))) of
           Inl e \<Rightarrow> Inl e
         | Inr encoding_indices \<Rightarrow>
             (let encodings = map (one_hot (num_embeddings vq)) encoding_indices;
                  quantized =
                    concat (map (\<lambda>a. row_matmul (num_embeddings vq) (embedding_dim vq) a
                                        (embedding_weight vq)) encodings);
                  e_latent_loss = mse_loss quantized (data inputs);
                  q_latent_loss = mse_loss quantized (data inputs);
                  loss = fadd q_latent_loss (fmul (Fin (commitment_cost vq)) e_latent_loss)
              in Inr (\<lparr>shape = shape inputs,
                        data = map (\<lambda>(x, q). x + (q - x)) (zip (data inputs) quantized)\<rparr>,
                      loss, encoding_indices))))"


text \<open>A codebook of two entries of dimension 2, and an input of shape \<open>(1, 2, 2)\<close>.\<close>

definition example_vq :: vector_quantizer where
  "example_vq = \<lparr>embedding_dim = 2, num_embeddings = 2,
     embedding_weight = [[0, 0], [1, 1]], commitment_cost = 1 / 4\<rparr>"

definition example_inputs :: "real tensor" where
  "example_inputs = \<lparr>shape = [1, 2, 2], data = [1, 2, 0, 0]\<rparr>"




section \<open>Properties of inverse_sigmoid\<close>

lemma sigmoid_pos: "0 < 1 / (1 + exp (- (x::real)))"
  by (simp add: add_pos_pos)

lemma sigmoid_lt1: "1 / (1 + exp (- (x::real))) < 1"
  by (simp add: add_pos_pos)


lemma fclamp_min_Fin [simp]:
  "fclamp_min (Fin r) (Fin lo) = Fin (max r lo)"
  "fclamp_min PInf (Fin lo) = PInf"
  "fclamp_min NInf (Fin lo) = Fin lo"
  "fclamp_min NaN b = NaN"
  by (simp_all add: fclamp_min_def max_def)














section \<open>Properties of top_k_top_p_filtering\<close>

lemma sort_desc_indices_set: "set (sort_desc_indices xs) = {0..<length xs}"
  by (simp add: sort_desc_indices_def)

lemma sort_desc_indices_distinct: "distinct (sort_desc_indices xs)"
  by (simp add: sort_desc_indices_def)

lemma sort_desc_indices_length: "length (sort_desc_indices xs) = length xs"
  by (simp add: sort_desc_indices_def)

lemma sort_desc_indices_sorted:
  "sorted (map (\<lambda>i. desc_key (xs ! i)) (sort_desc_indices xs))"
  by (simp add: sort_desc_indices_def)

lemma sort_desc_indices_spec: "sort_desc_spec xs (sort_desc_indices xs)"
  by (simp add: sort_desc_spec_def sort_desc_indices_def)

lemma sort_desc_spec_length:
  assumes "sort_desc_spec xs idx"
  shows "length idx = length xs"
proof -
  have d: "distinct idx" and st: "set idx = {0..<length xs}"
    using assms by (simp_all add: sort_desc_spec_def)
  have "length idx = card (set idx)" using d by (simp add: distinct_card)
  then show ?thesis unfolding st by simp
qed

lemma sort_desc_spec_hd:
  assumes "sort_desc_spec xs idx" and "xs \<noteq> []" and "j < length xs"
  shows "hd idx < length xs"
    and "desc_key (xs ! hd idx) \<le> desc_key (xs ! j)"
proof -
  have ne: "idx \<noteq> []" using assms(2) sort_desc_spec_length [OF assms(1)] by auto
  then obtain a r where s: "idx = a # r" by (cases idx) auto
  have st: "set idx = {0..<length xs}" using assms(1) by (simp add: sort_desc_spec_def)
  have "a \<in> set idx" by (simp add: s)
  then have "a \<in> {0..<length xs}" unfolding st .
  then show "hd idx < length xs" by (simp add: s)
  have "j \<in> set idx" using assms(3) st by simp
  moreover have "sorted (map (\<lambda>i. desc_key (xs ! i)) (a # r))"
    using assms(1) by (simp add: sort_desc_spec_def s)
  ultimately show "desc_key (xs ! hd idx) \<le> desc_key (xs ! j)"
    by (auto simp: s)
qed

lemma masked_select_subset: "set (masked_select idx m) \<subseteq> set idx"
  by (auto simp: masked_select_def dest: set_zip_leftD)

lemma masked_select_False_Cons:
  "masked_select (i # idx) (False # m) = masked_select idx m"
  by (simp add: masked_select_def)

lemma index_fill_length: "length (index_fill xs is v) = length xs"
  unfolding index_fill_def by (induction "is" arbitrary: xs) simp_all

lemma index_fill_other: "j \<notin> set is \<Longrightarrow> index_fill xs is v ! j = xs ! j"
  unfolding index_fill_def by (induction "is" arbitrary: xs) auto

lemma cumsum_from_length: "length (cumsum_from a xs) = length xs"
  by (induction xs arbitrary: a) simp_all

lemma cumsum_length: "length (cumsum xs) = length xs"
  by (simp add: cumsum_def cumsum_from_length split: list.splits)

lemma softmax_length: "length (softmax xs) = length xs"
  by (simp add: softmax_def Let_def split: list.splits)

lemma nucleus_indices_to_remove_keeps_hd:
  assumes "sort_desc_spec logits (srt logits)" and "logits \<noteq> []"
  shows "\<exists>rm. nucleus_indices_to_remove srt logits top_p = Inr rm
           \<and> hd (srt logits) \<notin> set rm \<and> set rm \<subseteq> {0..<length logits}"
proof -
  let ?s = "srt logits"
  let ?r = "map (\<lambda>c. fgt c (Fin top_p)) (cumsum (softmax (map (\<lambda>i. logits ! i) ?s)))"
  let ?sh = "take 1 ?r @ butlast ?r"
  have len: "length ?r = length logits"
    by (simp add: cumsum_length softmax_length sort_desc_spec_length [OF assms(1)])
  then have "?r \<noteq> []" using assms(2) by auto
  then have sh: "?sh \<noteq> []" by (cases ?r) auto
  obtain a r where s: "?s = a # r"
    using assms(2) sort_desc_spec_length [OF assms(1)] by (cases ?s) auto
  have d: "a \<notin> set r" using assms(1) by (simp add: sort_desc_spec_def s)
  have eq: "nucleus_indices_to_remove srt logits top_p
              = Inr (masked_select ?s (False # tl ?sh))"
    using sh unfolding nucleus_indices_to_remove_def Let_def by simp
  have "masked_select ?s (False # tl ?sh) = masked_select r (tl ?sh)"
    by (simp add: s masked_select_False_Cons)
  moreover have "set (masked_select r (tl ?sh)) \<subseteq> set r" by (rule masked_select_subset)
  moreover have "set r \<subseteq> {0..<length logits}"
    using assms(1) by (auto simp: sort_desc_spec_def s)
  ultimately show ?thesis using d eq by (auto simp: s)
qed

text \<open>
  Claim C7.  On a one-dimensional logits tensor, \<open>top_k = 0\<close> and \<open>top_p = 0.0\<close> skip
  both branches: the returned tensor is the input, whatever the filter value.
\<close>

theorem top_k_top_p_filtering_noop:
  assumes "length (shape logits) = 1"
  shows "top_k_top_p_filtering torch_sort logits 0 0 filter_value = Inr logits"
  using assms by (simp add: top_k_top_p_filtering_def min_def)

text \<open>Claim C7 on a tensor of three logits.\<close>

theorem top_k_top_p_filtering_noop_witness:
  "length (shape \<lparr>shape = [3], data = [Fin 1, NInf, Fin 2]\<rparr>) = 1 \<and>
   top_k_top_p_filtering sort_desc_indices \<lparr>shape = [3], data = [Fin 1, NInf, Fin 2]\<rparr> 0 0 NInf
     = Inr \<lparr>shape = [3], data = [Fin 1, NInf, Fin 2]\<rparr>"
  using top_k_top_p_filtering_noop
    [of "\<lparr>shape = [3], data = [Fin 1, NInf, Fin 2]\<rparr>" sort_desc_indices NInf]
  by simp

text \<open>
  Claim C8.  Let \<open>torch_sort\<close> return, on the logits, a permutation of their positions in
  which the values descend.  With \<open>top_p > 0\<close> (and the default \<open>top_k = 0\<close>) on a
  non-empty one-dimensional tensor, the function returns; the indices that receive the
  filter value never contain the first index of the sort, that index holds a greatest
  logit, and the returned tensor still holds the original logit there.  Which of several
  positions with the greatest logit is kept is the choice of the sort.
\<close>

theorem nucleus_keeps_top1:
  assumes "length (shape logits) = 1" and "0 < top_p" and "data logits \<noteq> []"
    and "sort_desc_spec (data logits) (torch_sort (data logits))"
  shows "\<exists>rm out. nucleus_indices_to_remove torch_sort (data logits) top_p = Inr rm
           \<and> top_k_top_p_filtering torch_sort logits 0 top_p filter_value = Inr out
           \<and> shape out = shape logits
           \<and> data out = index_fill (data logits) rm filter_value
           \<and> length (data out) = length (data logits)
           \<and> hd (torch_sort (data logits)) < length (data logits)
           \<and> hd (torch_sort (data logits)) \<notin> set rm
           \<and> data out ! hd (torch_sort (data logits))
               = data logits ! hd (torch_sort (data logits))
           \<and> (\<forall>j < length (data logits).
                 desc_key (data logits ! hd (torch_sort (data logits)))
                   \<le> desc_key (data logits ! j))"
proof -
  let ?l = "data logits"
  let ?h = "hd (torch_sort ?l)"
  obtain rm where rm: "nucleus_indices_to_remove torch_sort ?l top_p = Inr rm" "?h \<notin> set rm"
    using nucleus_indices_to_remove_keeps_hd
      [where srt = torch_sort and logits = "data logits", OF assms(4,3)] by blast
  define out where "out = logits\<lparr>data := index_fill ?l rm filter_value\<rparr>"
  have r: "top_k_top_p_filtering torch_sort logits 0 top_p filter_value = Inr out"
    using assms(1,2) rm(1)
    by (simp add: top_k_top_p_filtering_def nucleus_branch_def out_def min_def)
  have "0 < length ?l" using assms(3) by simp
  then have h: "?h < length ?l" using sort_desc_spec_hd(1) [OF assms(4,3)] by blast
  have m: "\<forall>j < length ?l. desc_key (?l ! ?h) \<le> desc_key (?l ! j)"
    using sort_desc_spec_hd(2) [OF assms(4,3)] by blast
  have k: "data out ! ?h = ?l ! ?h" using rm(2) by (simp add: out_def index_fill_other)
  have "shape out = shape logits" "data out = index_fill ?l rm filter_value"
    "length (data out) = length ?l"
    by (simp_all add: out_def index_fill_length)
  then show ?thesis using rm r h m k by blast
qed

text \<open>Claim C8 on two equal logits with \<open>top_p = 1/4\<close>, for the sort that puts the second
  position first: the first position is filtered, the second one is kept.\<close>

theorem nucleus_keeps_top1_witness:
  "length (shape \<lparr>shape = [2], data = [Fin 0, Fin 0]\<rparr>) = 1 \<and> (0::real) < 1 / 4
   \<and> data \<lparr>shape = [2], data = [Fin 0, Fin 0]\<rparr> \<noteq> []
   \<and> sort_desc_spec [Fin 0, Fin 0] [1, 0]
   \<and> (\<exists>rm out. nucleus_indices_to_remove (\<lambda>xs. [1, 0]) [Fin 0, Fin 0] (1 / 4) = Inr rm
         \<and> top_k_top_p_filtering (\<lambda>xs. [1, 0]) \<lparr>shape = [2], data = [Fin 0, Fin 0]\<rparr> 0 (1 / 4) NInf
             = Inr out
         \<and> 1 \<notin> set rm
         \<and> data out ! 1 = Fin 0)"
proof -
  let ?t = "\<lparr>shape = [2], data = [Fin 0, Fin 0]\<rparr>"
  have a: "length (shape ?t) = 1" by simp
  have b: "(0::real) < 1 / 4" by simp
  have c: "data ?t \<noteq> []" by simp
  have d: "sort_desc_spec [Fin 0, Fin 0] [1, 0]"
    by (auto simp: sort_desc_spec_def)
  have d': "sort_desc_spec (data ?t) ((\<lambda>xs. [1, 0]) (data ?t))" using d by simp
  show ?thesis
    using a b c d nucleus_keeps_top1 [OF a b c d', of NInf] by auto
qed

section \<open>The nucleus path of forward\<close>

lemma squeeze_similarity_shape:
  "shape (squeeze (similarity_tensor V rows)) = filter (\<lambda>d. d \<noteq> 1) [length rows, V]"
  by (simp add: squeeze_def similarity_tensor_def)

lemma nucleus_sample_Inr_dim:
  assumes "nucleus_sample M net seq_i similarity = Inr r"
  shows "length (shape (squeeze (similarity_tensor (vocab_size net) similarity))) = 1"
proof (rule ccontr)
  assume n: "length (shape (squeeze (similarity_tensor (vocab_size net) similarity))) \<noteq> 1"
  have "top_k_top_p_filtering (sort_descending net)
          (squeeze (similarity_tensor (vocab_size net) similarity)) 0 p NInf
          = Inl AssertionError" for p
    using n by (simp add: top_k_top_p_filtering_def)
  then have "\<exists>e. nucleus_sample M net seq_i similarity = Inl e"
    by (simp add: nucleus_sample_def split: option.splits)
  then show False using assms by auto
qed

text \<open>
  Claim C9.  \<open>top_k_top_p_filtering\<close> raises \<open>AssertionError\<close> on every tensor whose
  number of dimensions is not one.  So the nucleus path of \<open>forward\<close>, once \<open>self.top_p\<close>
  is read, raises \<open>AssertionError\<close> unless the squeezed similarity is one-dimensional; when
  it succeeds the squeezed similarity is one-dimensional, and for a vocabulary of more than
  one entry the batch has exactly one sample.
\<close>

theorem nucleus_path_needs_one_dim:
  "(length (shape logits) \<noteq> 1 \<longrightarrow>
      top_k_top_p_filtering torch_sort logits top_k top_p filter_value = Inl AssertionError)
   \<and> (self_top_p M = Some p
        \<and> length (shape (squeeze (similarity_tensor (vocab_size net) similarity))) \<noteq> 1 \<longrightarrow>
      nucleus_sample M net seq_i similarity = Inl AssertionError)
   \<and> (nucleus_sample M net seq_i similarity = Inr r \<longrightarrow>
      length (shape (squeeze (similarity_tensor (vocab_size net) similarity))) = 1
      \<and> (vocab_size net \<noteq> 1 \<longrightarrow> length similarity = 1))"
proof (intro conjI impI)
  assume "length (shape logits) \<noteq> 1"
  then show "top_k_top_p_filtering torch_sort logits top_k top_p filter_value
               = Inl AssertionError"
    by (simp add: top_k_top_p_filtering_def)
next
  assume "self_top_p M = Some p
     \<and> length (shape (squeeze (similarity_tensor (vocab_size net) similarity))) \<noteq> 1"
  then show "nucleus_sample M net seq_i similarity = Inl AssertionError"
    by (simp add: nucleus_sample_def top_k_top_p_filtering_def)
next
  assume r: "nucleus_sample M net seq_i similarity = Inr r"
  show d: "length (shape (squeeze (similarity_tensor (vocab_size net) similarity))) = 1"
    by (rule nucleus_sample_Inr_dim [OF r])
  assume "vocab_size net \<noteq> 1"
  then show "length similarity = 1"
    using d unfolding squeeze_similarity_shape by (simp split: if_splits)
qed

lemma nucleus_sample_example:
  "nucleus_sample example_module example_net 0 [[Fin 0, Fin 0]] = Inr ([0], [[Fin 1, Fin 0]])"
  by (simp add: nucleus_sample_def example_module_def example_net_def squeeze_def similarity_tensor_def
      top_k_top_p_filtering_def nucleus_branch_def nucleus_indices_to_remove_def
      sort_desc_indices_def upt_rec softmax_def cumsum_def fmax_def fsub_def fgt_def
      masked_select_def index_fill_def Let_def)

text \<open>Claim C9 on a two-dimensional tensor, on a batch of two samples and on a batch of
  one sample.\<close>

theorem nucleus_path_needs_one_dim_witness:
  "length (shape \<lparr>shape = [2, 2], data = [Fin 0, Fin 0, Fin 0, Fin 0]\<rparr>) \<noteq> 1
   \<and> top_k_top_p_filtering sort_desc_indices
         \<lparr>shape = [2, 2], data = [Fin 0, Fin 0, Fin 0, Fin 0]\<rparr> 0 (1 / 4) NInf
       = Inl AssertionError
   \<and> self_top_p example_module = Some (1 / 4)
   \<and> length (shape (squeeze (similarity_tensor (vocab_size example_net)
         [[Fin 0, Fin 0], [Fin 0, Fin 0]]))) \<noteq> 1
   \<and> nucleus_sample example_module example_net 0 [[Fin 0, Fin 0], [Fin 0, Fin 0]] = Inl AssertionError
   \<and> nucleus_sample example_module example_net 0 [[Fin 0, Fin 0]] = Inr ([0], [[Fin 1, Fin 0]])
   \<and> length (shape (squeeze (similarity_tensor (vocab_size example_net) [[Fin 0, Fin 0]]))) = 1
   \<and> vocab_size example_net \<noteq> 1 \<and> length [[Fin 0, Fin (0::real)]] = 1"
proof -
  have a: "length (shape \<lparr>shape = [2, 2], data = [Fin 0, Fin 0, Fin 0, Fin 0]\<rparr>) \<noteq> 1"
    by simp
  have b: "self_top_p example_module = Some (1 / 4)" by (simp add: example_module_def)
  have c: "length (shape (squeeze (similarity_tensor (vocab_size example_net)
         [[Fin 0, Fin 0], [Fin 0, Fin 0]]))) \<noteq> 1"
    by (simp add: squeeze_def similarity_tensor_def example_net_def)
  have d: "vocab_size example_net \<noteq> 1" by (simp add: example_net_def)
  note t1 = nucleus_path_needs_one_dim
    [of "\<lparr>shape = [2, 2], data = [Fin 0, Fin 0, Fin 0, Fin 0]\<rparr>" sort_desc_indices
        0 "1 / 4" NInf example_module "1 / 4" example_net "[[Fin 0, Fin 0], [Fin 0, Fin 0]]" 0 "([], [])"]
  note t2 = nucleus_path_needs_one_dim
    [of "\<lparr>shape = [2, 2], data = [Fin 0, Fin 0, Fin 0, Fin 0]\<rparr>" sort_desc_indices
        0 "1 / 4" NInf example_module "1 / 4" example_net "[[Fin 0, Fin 0]]" 0 "([0], [[Fin 1, Fin 0]])"]
  show ?thesis using a b c d t1 t2 nucleus_sample_example by simp
qed

section \<open>The decoding loop\<close>

lemma broadcast_to_length: "broadcast_to n xs = Inr ys \<Longrightarrow> length ys = n"
  by (auto simp: broadcast_to_def split: if_splits)

lemma eos_check_cases:
  assumes "eos_check nv V i sim e0 l0 = Inr x" and "length l0 = length e0"
  obtains stop e1 l1 where
    "length stop = length e0" "length e1 = length e0" "length l1 = length e0"
    "\<forall>b<length e0. e1 ! b = (stop ! b \<or> e0 ! b)"
    "\<forall>b<length e0. l1 ! b = l0 ! b + int i * (if \<not> e0 ! b \<and> stop ! b then 1 else 0)"
    "x = (if list_all id e1 \<and> 4 < i then Break (e1, l1) else Continue (e1, l1))"
    "\<exists>is_eos. argmax_rows (nv - 1) V sim = Inr is_eos
        \<and> broadcast_to (length e0) (map (\<lambda>k. int k = nv - 2) is_eos) = Inr stop"
proof -
  from assms(1) obtain is_eos where a: "argmax_rows (nv - 1) V sim = Inr is_eos"
    by (auto simp: eos_check_def split: sum.splits)
  from assms(1) a obtain stop where
    s: "broadcast_to (length e0) (map (\<lambda>k. int k = nv - 2) is_eos) = Inr stop"
    by (auto simp: eos_check_def split: sum.splits)
  define l1 where "l1 = map (\<lambda>(l, e, s). l + int i * (if \<not> e \<and> s then 1 else 0))
                              (zip l0 (zip e0 stop))"
  define e1 where "e1 = map (\<lambda>(s, e). s \<or> e) (zip stop e0)"
  have ls: "length stop = length e0" by (rule broadcast_to_length [OF s])
  have x: "x = (if list_all id e1 \<and> 4 < i then Break (e1, l1) else Continue (e1, l1))"
    using assms(1) a s by (auto simp: eos_check_def Let_def l1_def e1_def)
  have "length e1 = length e0" "length l1 = length e0"
    using ls assms(2) by (simp_all add: e1_def l1_def)
  moreover have "\<forall>b<length e0. e1 ! b = (stop ! b \<or> e0 ! b)"
    using ls by (simp add: e1_def)
  moreover have "\<forall>b<length e0. l1 ! b = l0 ! b + int i * (if \<not> e0 ! b \<and> stop ! b then 1 else 0)"
    using ls assms(2) by (simp add: l1_def)
  ultimately show ?thesis using that ls x a s by blast
qed

lemma decode_step_Break:
  assumes "decoder net (input_embed st) (pre_kv st) = (out_dec, kv)"
    and "eos_gate M nv (vocab_size net) i (vocal_classifier net out_dec) st = Inr (Break (e1, l1))"
  shows "decode_step M net nv ns i st
           = Inr (Break (st\<lparr>pre_kv := kv, ended := e1, end_lens := l1\<rparr>))"
  using assms by (simp add: decode_step_def Let_def)

lemma decode_step_Continue:
  assumes "decoder net (input_embed st) (pre_kv st) = (out_dec, kv)"
    and "eos_gate M nv (vocab_size net) i (vocal_classifier net out_dec) st
           = Inr (Continue (e1, l1))"
    and "sample_token M net nv ns i (vocal_classifier net out_dec) = Inr (tok, app)"
  shows "decode_step M net nv ns i st
           = Inr (Continue (st\<lparr>pre_kv := kv, ended := e1, end_lens := l1,
                    pred_seq_logits := pred_seq_logits st @ [app],
                    input_embed := vocal_embed net tok\<rparr>))"
  using assms by (simp add: decode_step_def Let_def)

lemma decode_step_gate_Inl:
  assumes "decoder net (input_embed st) (pre_kv st) = (out_dec, kv)"
    and "eos_gate M nv (vocab_size net) i (vocal_classifier net out_dec) st = Inl e"
  shows "decode_step M net nv ns i st = Inl e"
  using assms by (simp add: decode_step_def Let_def)

lemma decode_step_sample_Inl:
  assumes "decoder net (input_embed st) (pre_kv st) = (out_dec, kv)"
    and "eos_gate M nv (vocab_size net) i (vocal_classifier net out_dec) st
           = Inr (Continue (e1, l1))"
    and "sample_token M net nv ns i (vocal_classifier net out_dec) = Inl e"
  shows "decode_step M net nv ns i st = Inl e"
  using assms by (simp add: decode_step_def Let_def)

lemma decode_step_Inr_cases:
  assumes "decode_step M net nv ns i st = Inr x"
  obtains (br) out_dec kv e1 l1 where
      "decoder net (input_embed st) (pre_kv st) = (out_dec, kv)"
      "eos_gate M nv (vocab_size net) i (vocal_classifier net out_dec) st = Inr (Break (e1, l1))"
      "x = Break (st\<lparr>pre_kv := kv, ended := e1, end_lens := l1\<rparr>)"
  | (co) out_dec kv e1 l1 tok app where
      "decoder net (input_embed st) (pre_kv st) = (out_dec, kv)"
      "eos_gate M nv (vocab_size net) i (vocal_classifier net out_dec) st
         = Inr (Continue (e1, l1))"
      "sample_token M net nv ns i (vocal_classifier net out_dec) = Inr (tok, app)"
      "x = Continue (st\<lparr>pre_kv := kv, ended := e1, end_lens := l1,
                    pred_seq_logits := pred_seq_logits st @ [app],
                    input_embed := vocal_embed net tok\<rparr>)"
proof -
  obtain out_dec kv where d: "decoder net (input_embed st) (pre_kv st) = (out_dec, kv)"
    by (cases "decoder net (input_embed st) (pre_kv st)") auto
  show ?thesis
  proof (cases "eos_gate M nv (vocab_size net) i (vocal_classifier net out_dec) st")
    case (Inl e)
    then show ?thesis using decode_step_gate_Inl [OF d Inl] assms by simp
  next
    case (Inr y)
    show ?thesis
    proof (cases y)
      case (Break p)
      obtain e1 l1 where p: "p = (e1, l1)" by (cases p) auto
      have g: "eos_gate M nv (vocab_size net) i (vocal_classifier net out_dec) st
                 = Inr (Break (e1, l1))" using Inr Break p by simp
      show ?thesis using br [OF d g] decode_step_Break [OF d g, of ns] assms by simp
    next
      case (Continue p)
      obtain e1 l1 where p: "p = (e1, l1)" by (cases p) auto
      have g: "eos_gate M nv (vocab_size net) i (vocal_classifier net out_dec) st
                 = Inr (Continue (e1, l1))" using Inr Continue p by simp
      show ?thesis
      proof (cases "sample_token M net nv ns i (vocal_classifier net out_dec)")
        case (Inl e)
        then show ?thesis using decode_step_sample_Inl [OF d g Inl] assms by simp
      next
        case (Inr q)
        obtain tok app where q: "q = (tok, app)" by (cases q) auto
        have s: "sample_token M net nv ns i (vocal_classifier net out_dec) = Inr (tok, app)"
          using Inr q by simp
        show ?thesis using co [OF d g s] decode_step_Continue [OF d g s] assms by simp
      qed
    qed
  qed
qed


lemma eos_gate_cases:
  assumes "eos_gate M nv V i sim st = Inr y" and "length (end_lens st) = length (ended st)"
  obtains (eos) stop e1 l1 where
    "self_pred_eos M"
    "length stop = length (ended st)" "length e1 = length (ended st)"
    "length l1 = length (ended st)"
    "\<forall>b<length (ended st). e1 ! b = (stop ! b \<or> ended st ! b)"
    "\<forall>b<length (ended st). l1 ! b = end_lens st ! b
         + int i * (if \<not> ended st ! b \<and> stop ! b then 1 else 0)"
    "y = (if list_all id e1 \<and> 4 < i then Break (e1, l1) else Continue (e1, l1))"
  | (plain) "\<not> self_pred_eos M" "y = Continue (ended st, end_lens st)"
proof (cases "self_pred_eos M")
  case True
  then have c: "eos_check nv V i sim (ended st) (end_lens st) = Inr y"
    using assms(1) by (simp add: eos_gate_def)
  show ?thesis
    by (rule eos_check_cases [OF c assms(2)]) (rule eos [OF True], assumption+)
next
  case False
  then have "y = Continue (ended st, end_lens st)" using assms(1) by (simp add: eos_gate_def)
  then show ?thesis by (rule plain [OF False])
qed

lemma eos_update_inv:
  fixes l0 l1 :: "int list"
  assumes e1: "\<forall>b<n. e1 ! b = (stop ! b \<or> e0 ! b)"
    and l1: "\<forall>b<n. l1 ! b = l0 ! b + int i * (if \<not> e0 ! b \<and> stop ! b then 1 else 0)"
    and z: "\<forall>b<n. \<not> e0 ! b \<longrightarrow> l0 ! b = 0"
    and r: "\<forall>b<n. e0 ! b \<longrightarrow> 0 \<le> l0 ! b \<and> l0 ! b < int i"
  shows "\<forall>b<n. \<not> e1 ! b \<longrightarrow> l1 ! b = 0"
    and "\<forall>b<n. e1 ! b \<longrightarrow> 0 \<le> l1 ! b \<and> l1 ! b < int (Suc i)"
    and "\<forall>b<n. e0 ! b \<longrightarrow> e1 ! b \<and> l1 ! b = l0 ! b"
proof -
  have p: "(\<not> e1 ! b \<longrightarrow> l1 ! b = 0) \<and> (e1 ! b \<longrightarrow> 0 \<le> l1 ! b \<and> l1 ! b < int (Suc i))
      \<and> (e0 ! b \<longrightarrow> e1 ! b \<and> l1 ! b = l0 ! b)" if b: "b < n" for b
  proof -
    have a: "e1 ! b = (stop ! b \<or> e0 ! b)" using e1 b by simp
    have c: "l1 ! b = l0 ! b + int i * (if \<not> e0 ! b \<and> stop ! b then 1 else 0)"
      using l1 b by simp
    have d: "\<not> e0 ! b \<longrightarrow> l0 ! b = 0" using z b by simp
    have f: "e0 ! b \<longrightarrow> 0 \<le> l0 ! b \<and> l0 ! b < int i" using r b by simp
    show ?thesis
    proof (cases "e0 ! b")
      case True
      then show ?thesis using a c f by simp
    next
      case False
      then show ?thesis using a c d by simp
    qed
  qed
  show "\<forall>b<n. \<not> e1 ! b \<longrightarrow> l1 ! b = 0" using p by blast
  show "\<forall>b<n. e1 ! b \<longrightarrow> 0 \<le> l1 ! b \<and> l1 ! b < int (Suc i)" using p by blast
  show "\<forall>b<n. e0 ! b \<longrightarrow> e1 ! b \<and> l1 ! b = l0 ! b" using p by blast
qed

lemma not_all_ended: "\<not> list_all id xs \<Longrightarrow> \<exists>b<length xs. \<not> xs ! b"
  by (auto simp: list_all_length)

lemma all_ended: "list_all id xs \<Longrightarrow> b < length xs \<Longrightarrow> xs ! b"
  by (auto simp: list_all_length)

lemma all_endedI: "\<forall>b<length xs. xs ! b \<Longrightarrow> list_all id xs"
  by (auto simp: list_all_length)

lemma decode_invD:
  assumes "decode_inv M bs i st"
  shows "length (pred_seq_logits st) = i" "length (ended st) = bs" "length (end_lens st) = bs"
    "\<forall>b<bs. \<not> ended st ! b \<longrightarrow> end_lens st ! b = 0"
    "\<forall>b<bs. ended st ! b \<longrightarrow> 0 \<le> end_lens st ! b \<and> end_lens st ! b < int i"
    "self_pred_eos M \<and> 5 < i \<longrightarrow> \<not> list_all id (ended st)"
    "\<not> self_pred_eos M \<longrightarrow> (\<forall>b<bs. \<not> ended st ! b)"
  using assms unfolding decode_inv_def by blast+

lemma decode_invI:
  assumes "length (pred_seq_logits st) = i" "length (ended st) = bs" "length (end_lens st) = bs"
    "\<forall>b<bs. \<not> ended st ! b \<longrightarrow> end_lens st ! b = 0"
    "\<forall>b<bs. ended st ! b \<longrightarrow> 0 \<le> end_lens st ! b \<and> end_lens st ! b < int i"
    "self_pred_eos M \<and> 5 < i \<longrightarrow> \<not> list_all id (ended st)"
    "\<not> self_pred_eos M \<longrightarrow> (\<forall>b<bs. \<not> ended st ! b)"
  shows "decode_inv M bs i st"
  using assms unfolding decode_inv_def by blast


text \<open>An iteration that continues keeps the invariant; no sample that has ended changes.\<close>

lemma decode_step_Continue_inv:
  assumes s: "decode_step M net nv ns i st = Inr (Continue st')"
    and inv: "decode_inv M bs i st"
  shows "decode_inv M bs (Suc i) st'"
    and "\<forall>b<bs. ended st ! b \<longrightarrow> ended st' ! b \<and> end_lens st' ! b = end_lens st ! b"
proof -
  note d = decode_invD [OF inv]
  have len: "length (end_lens st) = length (ended st)" using d(2,3) by simp
  from s obtain out_dec kv e1 l1 tok app where
    g: "eos_gate M nv (vocab_size net) i (vocal_classifier net out_dec) st
          = Inr (Continue (e1, l1))"
    and st': "st' = st\<lparr>pre_kv := kv, ended := e1, end_lens := l1,
                    pred_seq_logits := pred_seq_logits st @ [app],
                    input_embed := vocal_embed net tok\<rparr>"
    by (cases rule: decode_step_Inr_cases) simp_all
  have f: "ended st' = e1" "end_lens st' = l1"
    "length (pred_seq_logits st') = Suc i"
    using d(1) by (simp_all add: st')
  from g len have
    "decode_inv M bs (Suc i) st'
     \<and> (\<forall>b<bs. ended st ! b \<longrightarrow> ended st' ! b \<and> end_lens st' ! b = end_lens st ! b)"
  proof (cases rule: eos_gate_cases)
    case (eos stop e1' l1')
    have c: "\<not> (list_all id e1' \<and> 4 < i)"
      using eos(7) by (cases "list_all id e1' \<and> 4 < i") simp_all
    then have "Continue (e1, l1) = Continue (e1', l1')" using eos(7) by simp
    then have eq: "e1' = e1" "l1' = l1" by simp_all
    have h1: "\<forall>b<bs. e1 ! b = (stop ! b \<or> ended st ! b)" using eos(5) d(2) eq by simp
    have h2: "\<forall>b<bs. l1 ! b = end_lens st ! b
         + int i * (if \<not> ended st ! b \<and> stop ! b then 1 else 0)" using eos(6) d(2) eq by simp
    note v = eos_update_inv [OF h1 h2 d(4) d(5)]
    have n5: "self_pred_eos M \<and> 5 < Suc i \<longrightarrow> \<not> list_all id e1" using c eq by auto
    have n6: "\<not> self_pred_eos M \<longrightarrow> (\<forall>b<bs. \<not> e1 ! b)" using eos(1) by simp
    have le: "length e1 = bs" "length l1 = bs" using eos(3,4) d(2) eq by simp_all
    have "decode_inv M bs (Suc i) st'"
      by (rule decode_invI) (use f le v(1,2) n5 n6 in simp_all)
    then show ?thesis using v(3) f by simp
  next
    case plain
    then have eq: "e1 = ended st" "l1 = end_lens st" by simp_all
    have a: "\<forall>b<bs. ended st ! b \<longrightarrow> 0 \<le> end_lens st ! b \<and> end_lens st ! b < int (Suc i)"
      using d(7) plain(1) by simp
    have n5: "self_pred_eos M \<and> 5 < Suc i \<longrightarrow> \<not> list_all id (ended st)"
      using plain(1) by simp
    have "decode_inv M bs (Suc i) st'"
      by (rule decode_invI) (use f eq d(2,3,4,7) a n5 in simp_all)
    then show ?thesis using f eq by simp
  qed
  then show "decode_inv M bs (Suc i) st'"
    and "\<forall>b<bs. ended st ! b \<longrightarrow> ended st' ! b \<and> end_lens st' ! b = end_lens st ! b"
    by simp_all
qed

text \<open>An iteration that breaks: the module predicts end-of-sequence, at least five
  iterations are complete, every sample has ended, nothing was appended, and unless this is
  iteration 5 some sample has ended in this very iteration.\<close>

lemma decode_step_Break_final:
  assumes s: "decode_step M net nv ns i st = Inr (Break st')"
    and inv: "decode_inv M bs i st"
  shows "self_pred_eos M \<and> 4 < i \<and> list_all id (ended st')
     \<and> pred_seq_logits st' = pred_seq_logits st
     \<and> length (ended st') = bs \<and> length (end_lens st') = bs
     \<and> (\<forall>b<bs. 0 \<le> end_lens st' ! b \<and> end_lens st' ! b \<le> int i)
     \<and> (i = 5 \<or> (\<exists>b<bs. end_lens st' ! b = int i))
     \<and> (\<forall>b<bs. ended st ! b \<longrightarrow> ended st' ! b \<and> end_lens st' ! b = end_lens st ! b)"
proof -
  note d = decode_invD [OF inv]
  have len: "length (end_lens st) = length (ended st)" using d(2,3) by simp
  from s obtain out_dec kv e1 l1 where
    g: "eos_gate M nv (vocab_size net) i (vocal_classifier net out_dec) st
          = Inr (Break (e1, l1))"
    and st': "st' = st\<lparr>pre_kv := kv, ended := e1, end_lens := l1\<rparr>"
    by (cases rule: decode_step_Inr_cases) simp_all
  have f: "ended st' = e1" "end_lens st' = l1" "pred_seq_logits st' = pred_seq_logits st"
    by (simp_all add: st')
  from g len show ?thesis
  proof (cases rule: eos_gate_cases)
    case (eos stop e1' l1')
    have c: "list_all id e1' \<and> 4 < i"
      using eos(7) by (cases "list_all id e1' \<and> 4 < i") simp_all
    then have "Break (e1, l1) = Break (e1', l1')" using eos(7) by simp
    then have eq: "e1' = e1" "l1' = l1" by simp_all
    have h1: "\<forall>b<bs. e1 ! b = (stop ! b \<or> ended st ! b)" using eos(5) d(2) eq by simp
    have h2: "\<forall>b<bs. l1 ! b = end_lens st ! b
         + int i * (if \<not> ended st ! b \<and> stop ! b then 1 else 0)" using eos(6) d(2) eq by simp
    note v = eos_update_inv [OF h1 h2 d(4) d(5)]
    have le: "length e1 = bs" "length l1 = bs" using eos(3,4) d(2) eq by simp_all
    have all: "\<forall>b<bs. e1 ! b" using c eq le all_ended [of e1] by blast
    have rng: "\<forall>b<bs. 0 \<le> l1 ! b \<and> l1 ! b \<le> int i"
    proof (intro allI impI)
      fix b assume b: "b < bs"
      then have "0 \<le> l1 ! b \<and> l1 ! b < int (Suc i)" using v(2) all by simp
      then show "0 \<le> l1 ! b \<and> l1 ! b \<le> int i" by simp
    qed
    have late: "i = 5 \<or> (\<exists>b<bs. l1 ! b = int i)"
    proof (cases "i = 5")
      case False
      then have "5 < i" using c by simp
      then have "\<not> list_all id (ended st)" using d(6) eos(1) by simp
      then obtain b where b: "b < bs" "\<not> ended st ! b"
        using not_all_ended [of "ended st"] d(2) by blast
      then have "stop ! b" using h1 all by blast
      then have "l1 ! b = int i" using h2 d(4) b by simp
      then show ?thesis using b by blast
    qed simp
    have a: "list_all id e1" using c eq by simp
    show ?thesis unfolding f
      using eos(1) c a le rng late v(3) by blast
  next
    case plain
    then show ?thesis by simp
  qed
qed


lemma decode_final_exhausted:
  assumes "decode_inv M bs 500 st"
  shows "decode_final M bs st st \<and> 500 \<le> length (pred_seq_logits st)"
proof -
  have "\<forall>b<bs. 0 \<le> end_lens st ! b \<and> end_lens st ! b \<le> 500"
  proof (intro allI impI)
    fix b assume "b < bs"
    then show "0 \<le> end_lens st ! b \<and> end_lens st ! b \<le> 500"
      using assms by (cases "ended st ! b") (auto simp: decode_inv_def)
  qed
  then show ?thesis using assms by (auto simp: decode_inv_def decode_final_def)
qed

lemma decode_final_Break:
  assumes s: "decode_step M net nv ns i st = Inr (Break st')"
    and inv: "decode_inv M bs i st" and i: "i < 500"
  shows "decode_final M bs st st' \<and> i \<le> length (pred_seq_logits st')"
proof -
  note b = decode_step_Break_final [OF s inv]
  have T: "length (pred_seq_logits st') = i" using b inv by (simp add: decode_inv_def)
  have z: "\<forall>b<bs. \<not> ended st' ! b \<longrightarrow> end_lens st' ! b = 0"
    using b all_ended [of "ended st'"] by auto
  show ?thesis unfolding decode_final_def T using b z i by auto
qed

lemma decode_final_trans:
  assumes c: "\<forall>b<bs. ended st ! b \<longrightarrow> ended s ! b \<and> end_lens s ! b = end_lens st ! b"
    and f: "decode_final M bs s st'"
  shows "decode_final M bs st st'"
  using assms unfolding decode_final_def by auto

text \<open>The loop, from any iteration at which the invariant holds.\<close>

lemma decode_loop_final:
  assumes "decode_loop M net nv ns i st = Inr st'" and "decode_inv M bs i st" and "i \<le> 500"
  shows "decode_final M bs st st' \<and> i \<le> length (pred_seq_logits st')"
  using assms
proof (induction "500 - i" arbitrary: i st)
  case 0
  then have i: "i = 500" by simp
  have "st' = st" using "0.prems"(1) by (simp add: i)
  then show ?case using decode_final_exhausted "0.prems"(2) i by auto
next
  case (Suc n)
  then have i: "i < 500" by simp
  have u: "decode_loop M net nv ns i st =
     (case decode_step M net nv ns i st of
           Inl e \<Rightarrow> Inl e
         | Inr (Break st') \<Rightarrow> Inr st'
         | Inr (Continue st') \<Rightarrow> decode_loop M net nv ns (Suc i) st')"
    using i by (subst decode_loop.simps) simp
  show ?case
  proof (cases "decode_step M net nv ns i st")
    case (Inl e)
    then show ?thesis using u Suc.prems(1) by simp
  next
    case (Inr x)
    show ?thesis
    proof (cases x)
      case (Break s)
      then have "st' = s" using u Inr Suc.prems(1) by simp
      then show ?thesis using decode_final_Break [OF _ Suc.prems(2) i] Inr Break by simp
    next
      case (Continue s)
      have st: "decode_step M net nv ns i st = Inr (Continue s)" using Inr Continue by simp
      have l: "decode_loop M net nv ns (Suc i) s = Inr st'"
        using u Inr Continue Suc.prems(1) by simp
      note c = decode_step_Continue_inv [OF st Suc.prems(2)]
      have n: "n = 500 - Suc i" using Suc.hyps(2) by simp
      have "decode_final M bs s st' \<and> Suc i \<le> length (pred_seq_logits st')"
        using Suc.hyps(1) [OF n l c(1)] i by simp
      then show ?thesis using decode_final_trans [OF c(2)] by auto
    qed
  qed
qed

lemma decode_inv_init: "decode_inv M bs 0 (init_state net bs)"
  by (simp add: decode_inv_def init_state_def list_all_length)


lemma sequence_Inr:
  "sequence xs = Inr ys \<Longrightarrow> length ys = length xs \<and> (\<forall>j<length xs. xs ! j = Inr (ys ! j))"
proof (induction xs arbitrary: ys)
  case Nil
  then show ?case by simp
next
  case (Cons x xs)
  show ?case
  proof (cases x)
    case (Inl e)
    then show ?thesis using Cons.prems by simp
  next
    case (Inr v)
    then obtain zs where z: "sequence xs = Inr zs" "ys = v # zs"
      using Cons.prems by (auto split: sum.splits)
    from Cons.IH [OF z(1)] show ?thesis using Inr z(2) by (auto simp: nth_Cons')
  qed
qed

lemma argmax_rows_Inr:
  assumes "argmax_rows n V rows = Inr ks"
  shows "length ks = length rows"
    and "\<forall>j<length rows. argmax (py_take n (rows ! j)) = Inr (ks ! j)"
proof -
  have "sequence (map (\<lambda>r. argmax (py_take n r)) rows) = Inr ks"
    using assms by (auto simp: argmax_rows_def split: if_splits)
  from sequence_Inr [OF this] show "length ks = length rows"
    and "\<forall>j<length rows. argmax (py_take n (rows ! j)) = Inr (ks ! j)" by auto
qed

lemma forced_stop:
  assumes f: "eos_forced net nv"
    and a: "argmax_rows (nv - 1) V (vocal_classifier net out) = Inr is_eos"
    and b: "broadcast_to n (map (\<lambda>k. int k = nv - 2) is_eos) = Inr stop"
  shows "\<forall>b<n. stop ! b"
proof -
  let ?rows = "vocal_classifier net out"
  note r = argmax_rows_Inr [OF a]
  have t: "\<forall>j<length is_eos. int (is_eos ! j) = nv - 2"
  proof (intro allI impI)
    fix j assume j: "j < length is_eos"
    then have "?rows ! j \<in> set ?rows" using r(1) by simp
    then obtain k where "argmax (py_take (nv - 1) (?rows ! j)) = Inr k" "int k = nv - 2"
      using f unfolding eos_forced_def by blast
    then show "int (is_eos ! j) = nv - 2" using r(2) j r(1) by simp
  qed
  let ?m = "map (\<lambda>k. int k = nv - 2) is_eos"
  have m: "\<forall>j<length ?m. ?m ! j" using t by simp
  show ?thesis
  proof (cases "length ?m = n")
    case True
    then have "stop = ?m" using b by (simp add: broadcast_to_def)
    then show ?thesis using m True by simp
  next
    case False
    then have l: "length ?m = 1" and s: "stop = replicate n (hd ?m)"
      using b by (auto simp: broadcast_to_def split: if_splits)
    from l have "hd ?m = ?m ! 0" by (cases ?m) auto
    then have "hd ?m" using m l by simp
    then show ?thesis using s by simp
  qed
qed


lemma eos_gate_forced:
  assumes f: "eos_forced net nv" and p: "self_pred_eos M"
    and g: "eos_gate M nv (vocab_size net) i (vocal_classifier net out) st = Inr y"
    and len: "length (end_lens st) = length (ended st)"
  shows "\<exists>e1 l1. y = (if 4 < i then Break (e1, l1) else Continue (e1, l1))
      \<and> length e1 = length (ended st) \<and> length l1 = length (ended st)
      \<and> (\<forall>b<length (ended st). e1 ! b)
      \<and> (\<forall>b<length (ended st). l1 ! b
            = end_lens st ! b + int i * (if \<not> ended st ! b then 1 else 0))"
proof -
  have c: "eos_check nv (vocab_size net) i (vocal_classifier net out) (ended st) (end_lens st)
             = Inr y" using g p by (simp add: eos_gate_def)
  show ?thesis
  proof (rule eos_check_cases [OF c len])
    fix stop e1 l1
    assume a: "length stop = length (ended st)" "length e1 = length (ended st)"
      "length l1 = length (ended st)"
      and e: "\<forall>b<length (ended st). e1 ! b = (stop ! b \<or> ended st ! b)"
      and l: "\<forall>b<length (ended st). l1 ! b = end_lens st ! b
           + int i * (if \<not> ended st ! b \<and> stop ! b then 1 else 0)"
      and y: "y = (if list_all id e1 \<and> 4 < i then Break (e1, l1) else Continue (e1, l1))"
      and x: "\<exists>is_eos. argmax_rows (nv - 1) (vocab_size net) (vocal_classifier net out)
                = Inr is_eos
            \<and> broadcast_to (length (ended st)) (map (\<lambda>k. int k = nv - 2) is_eos) = Inr stop"
    from x obtain is_eos where
      "argmax_rows (nv - 1) (vocab_size net) (vocal_classifier net out) = Inr is_eos"
      "broadcast_to (length (ended st)) (map (\<lambda>k. int k = nv - 2) is_eos) = Inr stop"
      by blast
    from forced_stop [OF f this] have t: "\<forall>b<length (ended st). stop ! b" .
    have all: "\<forall>b<length (ended st). e1 ! b" using e t by simp
    then have "list_all id e1" using a(2) by (simp add: list_all_length)
    then have y': "y = (if 4 < i then Break (e1, l1) else Continue (e1, l1))" using y by simp
    have l': "\<forall>b<length (ended st). l1 ! b
            = end_lens st ! b + int i * (if \<not> ended st ! b then 1 else 0)"
      using l t by simp
    show ?thesis using y' a(2,3) all l' by blast
  qed
qed


text \<open>With the end-of-sequence class forced, an iteration that does not raise leaves every
  sample ended; a sample that had not ended gets the iteration number as its length.\<close>

lemma decode_step_forced:
  assumes f: "eos_forced net nv" and p: "self_pred_eos M"
    and s: "decode_step M net nv ns i st = Inr x"
    and len: "length (end_lens st) = length (ended st)"
  shows "\<exists>st'. x = (if 4 < i then Break st' else Continue st')
      \<and> (\<forall>b<length (ended st). ended st' ! b)
      \<and> (\<forall>b<length (ended st). end_lens st' ! b
            = end_lens st ! b + int i * (if \<not> ended st ! b then 1 else 0))"
  using s
proof (cases rule: decode_step_Inr_cases)
  case (br out_dec kv e1 l1)
  from eos_gate_forced [OF f p br(2) len] obtain e1' l1' where
    y: "Break (e1, l1) = (if 4 < i then Break (e1', l1') else Continue (e1', l1'))"
    and r: "\<forall>b<length (ended st). e1' ! b"
      "\<forall>b<length (ended st). l1' ! b
            = end_lens st ! b + int i * (if \<not> ended st ! b then 1 else 0)"
    by blast
  have i: "4 < i" using y by (cases "4 < i") simp_all
  then have eq: "e1' = e1" "l1' = l1" using y by simp_all
  let ?st = "st\<lparr>pre_kv := kv, ended := e1, end_lens := l1\<rparr>"
  have "x = (if 4 < i then Break ?st else Continue ?st)" using br(3) i by simp
  moreover have "\<forall>b<length (ended st). ended ?st ! b" using r(1) eq by simp
  moreover have "\<forall>b<length (ended st). end_lens ?st ! b
            = end_lens st ! b + int i * (if \<not> ended st ! b then 1 else 0)"
    using r(2) eq by simp
  ultimately show ?thesis by blast
next
  case (co out_dec kv e1 l1 tok app)
  from eos_gate_forced [OF f p co(2) len] obtain e1' l1' where
    y: "Continue (e1, l1) = (if 4 < i then Break (e1', l1') else Continue (e1', l1'))"
    and r: "\<forall>b<length (ended st). e1' ! b"
      "\<forall>b<length (ended st). l1' ! b
            = end_lens st ! b + int i * (if \<not> ended st ! b then 1 else 0)"
    by blast
  have i: "\<not> 4 < i" using y by (cases "4 < i") simp_all
  then have eq: "e1' = e1" "l1' = l1" using y by simp_all
  let ?st = "st\<lparr>pre_kv := kv, ended := e1, end_lens := l1,
                    pred_seq_logits := pred_seq_logits st @ [app],
                    input_embed := vocal_embed net tok\<rparr>"
  have "x = (if 4 < i then Break ?st else Continue ?st)" using co(4) i by simp
  moreover have "\<forall>b<length (ended st). ended ?st ! b" using r(1) eq by simp
  moreover have "\<forall>b<length (ended st). end_lens ?st ! b
            = end_lens st ! b + int i * (if \<not> ended st ! b then 1 else 0)"
    using r(2) eq by simp
  ultimately show ?thesis by blast
qed

lemma decode_loop_unfold:
  "i < 500 \<Longrightarrow> decode_loop M net nv ns i st =
     (case decode_step M net nv ns i st of
           Inl e \<Rightarrow> Inl e
         | Inr (Break st') \<Rightarrow> Inr st'
         | Inr (Continue st') \<Rightarrow> decode_loop M net nv ns (Suc i) st')"
  by (subst decode_loop.simps) simp

text \<open>With the end-of-sequence class forced from the first iteration, a run that does not
  raise appends exactly five entries, and every sample ends with length 0.\<close>

lemma decode_loop_forced:
  assumes f: "eos_forced net nv" and p: "self_pred_eos M"
    and l: "decode_loop M net nv ns 0 (init_state net bs) = Inr st'"
  shows "length (pred_seq_logits st') = 5"
    and "\<forall>b<bs. ended st' ! b \<and> end_lens st' ! b = 0"
proof -
  let ?s0 = "init_state net bs"
  have le0: "length (ended ?s0) = bs" "length (end_lens ?s0) = length (ended ?s0)"
    "\<forall>b<bs. end_lens ?s0 ! b = 0"
    by (simp_all add: init_state_def)
  note u = decode_loop_unfold [of 0 M net nv ns ?s0, simplified]
  obtain x where x: "decode_step M net nv ns 0 ?s0 = Inr x"
    using l u by (cases "decode_step M net nv ns 0 ?s0") simp_all
  from decode_step_forced [OF f p x le0(2)] obtain st1 where
    x1: "x = Continue st1" and e1: "\<forall>b<bs. ended st1 ! b"
    and l1: "\<forall>b<bs. end_lens st1 ! b = 0"
    using le0(1,3) by auto
  have s1: "decode_step M net nv ns 0 ?s0 = Inr (Continue st1)" using x x1 by simp
  have l': "decode_loop M net nv ns (Suc 0) st1 = Inr st'" using l u s1 by simp
  have inv1: "decode_inv M bs (Suc 0) st1"
    by (rule decode_step_Continue_inv(1) [OF s1 decode_inv_init])
  have fin: "decode_final M bs st1 st'"
    using decode_loop_final [OF l' inv1] by simp
  let ?T = "length (pred_seq_logits st')"
  have k: "\<forall>b<bs. ended st' ! b \<and> end_lens st' ! b = 0"
    using fin e1 l1 unfolding decode_final_def by simp
  have lb: "length (ended st') = bs" using fin unfolding decode_final_def by blast
  have all: "list_all id (ended st')" by (rule all_endedI) (use k lb in simp)
  have T500: "?T \<le> 500" using fin unfolding decode_final_def by blast
  have "?T \<noteq> 500" using fin all p unfolding decode_final_def by blast
  then have lt: "?T < 500" using T500 by simp
  then have c: "5 \<le> ?T" "?T = 5 \<or> (\<exists>b<bs. end_lens st' ! b = int ?T)"
    using fin unfolding decode_final_def by blast+
  show "?T = 5"
  proof (rule ccontr)
    assume n: "?T \<noteq> 5"
    then obtain b where "b < bs" "end_lens st' ! b = int ?T" using c(2) by blast
    then have "int ?T = 0" using k by simp
    then show False using c(1) by simp
  qed
  show "\<forall>b<bs. ended st' ! b \<and> end_lens st' ! b = 0" by (rule k)
qed


lemma eos_check_defined:
  assumes a: "argmax_rows (nv - 1) V sim = Inr is_eos" and l: "length sim = length e0"
  shows "\<exists>y. eos_check nv V i sim e0 l0 = Inr y"
proof -
  have "length is_eos = length e0" using argmax_rows_Inr(1) [OF a] l by simp
  then have "broadcast_to (length e0) (map (\<lambda>k. int k = nv - 2) is_eos)
               = Inr (map (\<lambda>k. int k = nv - 2) is_eos)"
    by (simp add: broadcast_to_def)
  then show ?thesis using a by (simp add: eos_check_def Let_def)
qed

text \<open>Without nucleus sampling an iteration does not raise when both \<open>argmax\<close> calls are
  defined and the classifier returns one row for each sample.\<close>

lemma decode_step_greedy_defined:
  assumes g: "greedy_defined net nv bs" and len: "length (ended st) = bs"
  shows "\<exists>x. decode_step M net nv False i st = Inr x"
proof -
  obtain out_dec kv where d: "decoder net (input_embed st) (pre_kv st) = (out_dec, kv)"
    by (cases "decoder net (input_embed st) (pre_kv st)") auto
  let ?sim = "vocal_classifier net out_dec"
  from g obtain is_eos toks where
    r: "length ?sim = bs" "argmax_rows (nv - 1) (vocab_size net) ?sim = Inr is_eos"
      "argmax_rows (nv - 2) (vocab_size net) ?sim = Inr toks"
    unfolding greedy_defined_def by blast
  have "\<exists>y. eos_gate M nv (vocab_size net) i ?sim st = Inr y"
  proof (cases "self_pred_eos M")
    case True
    then show ?thesis
      using eos_check_defined [OF r(2), of "ended st" i "end_lens st"] r(1) len
      by (simp add: eos_gate_def)
  next
    case False
    then show ?thesis by (simp add: eos_gate_def)
  qed
  then obtain y where y: "eos_gate M nv (vocab_size net) i ?sim st = Inr y" by blast
  have s: "sample_token M net nv False i ?sim = Inr (toks, ?sim)"
    using r(3) by (simp add: sample_token_def greedy_sample_def)
  show ?thesis
  proof (cases y)
    case (Break p)
    obtain e1 l1 where "p = (e1, l1)" by (cases p) auto
    then show ?thesis using decode_step_Break [OF d, of M nv i e1 l1 False] y Break by simp
  next
    case (Continue p)
    obtain e1 l1 where "p = (e1, l1)" by (cases p) auto
    then show ?thesis
      using decode_step_Continue [OF d, of M nv i e1 l1 False toks ?sim] y Continue s by simp
  qed
qed

lemma decode_loop_defined:
  assumes step: "\<And>i st. decode_inv M bs i st \<Longrightarrow> \<exists>x. decode_step M net nv ns i st = Inr x"
    and inv: "decode_inv M bs i st"
  shows "\<exists>st'. decode_loop M net nv ns i st = Inr st'"
  using inv
proof (induction "500 - i" arbitrary: i st)
  case 0
  then have "\<not> i < 500" by simp
  then show ?case by (subst decode_loop.simps) simp
next
  case (Suc n)
  then have i: "i < 500" by simp
  note u = decode_loop_unfold [OF i, of M net nv ns st]
  from step [OF Suc.prems] obtain x where x: "decode_step M net nv ns i st = Inr x" by blast
  show ?case
  proof (cases x)
    case (Break s)
    then show ?thesis using u x by simp
  next
    case (Continue s)
    then have c: "decode_step M net nv ns i st = Inr (Continue s)" using x by simp
    have n: "n = 500 - Suc i" using Suc.hyps(2) by simp
    from Suc.hyps(1) [OF n decode_step_Continue_inv(1) [OF c Suc.prems]]
    show ?thesis using u c by simp
  qed
qed

lemma never_stop:
  assumes f: "eos_never net nv"
    and a: "argmax_rows (nv - 1) V (vocal_classifier net out) = Inr is_eos"
    and b: "broadcast_to n (map (\<lambda>k. int k = nv - 2) is_eos) = Inr stop"
  shows "\<forall>b<n. \<not> stop ! b"
proof -
  let ?rows = "vocal_classifier net out"
  note r = argmax_rows_Inr [OF a]
  have t: "\<forall>j<length is_eos. int (is_eos ! j) \<noteq> nv - 2"
  proof (intro allI impI)
    fix j assume j: "j < length is_eos"
    then have "?rows ! j \<in> set ?rows" using r(1) by simp
    moreover have "argmax (py_take (nv - 1) (?rows ! j)) = Inr (is_eos ! j)"
      using r j by simp
    ultimately show "int (is_eos ! j) \<noteq> nv - 2"
      using f unfolding eos_never_def by blast
  qed
  let ?m = "map (\<lambda>k. int k = nv - 2) is_eos"
  have m: "\<forall>j<length ?m. \<not> ?m ! j" using t by simp
  show ?thesis
  proof (cases "length ?m = n")
    case True
    then have "stop = ?m" using b by (simp add: broadcast_to_def)
    then show ?thesis using m True by simp
  next
    case False
    then have l: "length ?m = 1" and s: "stop = replicate n (hd ?m)"
      using b by (auto simp: broadcast_to_def split: if_splits)
    from l have "hd ?m = ?m ! 0" by (cases ?m) auto
    then have "\<not> hd ?m" using m l by simp
    then show ?thesis using s by simp
  qed
qed


lemma eos_gate_never:
  assumes f: "eos_never net nv"
    and g: "eos_gate M nv (vocab_size net) i (vocal_classifier net out) st = Inr y"
    and len: "length (end_lens st) = length (ended st)"
    and none: "\<forall>b<length (ended st). \<not> ended st ! b"
    and pos: "0 < length (ended st)"
  shows "\<exists>e1 l1. y = Continue (e1, l1) \<and> length e1 = length (ended st)
      \<and> length l1 = length (ended st) \<and> (\<forall>b<length (ended st). \<not> e1 ! b)"
proof (cases "self_pred_eos M")
  case False
  then have "y = Continue (ended st, end_lens st)" using g by (simp add: eos_gate_def)
  then show ?thesis using len none by blast
next
  case True
  then have c: "eos_check nv (vocab_size net) i (vocal_classifier net out) (ended st)
      (end_lens st) = Inr y" using g by (simp add: eos_gate_def)
  show ?thesis
  proof (rule eos_check_cases [OF c len])
    fix stop e1 l1
    assume a: "length e1 = length (ended st)" "length l1 = length (ended st)"
      and e: "\<forall>b<length (ended st). e1 ! b = (stop ! b \<or> ended st ! b)"
      and y: "y = (if list_all id e1 \<and> 4 < i then Break (e1, l1) else Continue (e1, l1))"
      and x: "\<exists>is_eos. argmax_rows (nv - 1) (vocab_size net) (vocal_classifier net out)
                = Inr is_eos
            \<and> broadcast_to (length (ended st)) (map (\<lambda>k. int k = nv - 2) is_eos) = Inr stop"
    from x obtain is_eos where
      "argmax_rows (nv - 1) (vocab_size net) (vocal_classifier net out) = Inr is_eos"
      "broadcast_to (length (ended st)) (map (\<lambda>k. int k = nv - 2) is_eos) = Inr stop"
      by blast
    from never_stop [OF f this] have t: "\<forall>b<length (ended st). \<not> stop ! b" .
    have no: "\<forall>b<length (ended st). \<not> e1 ! b" using e t none by simp
    then have "\<not> e1 ! 0" using pos by simp
    then have "\<not> list_all id e1" using all_ended [of e1 0] pos a(1) by auto
    then have "y = Continue (e1, l1)" using y by simp
    then show ?thesis using a no by blast
  qed
qed

text \<open>When no row ever has the end-of-sequence class as its \<open>argmax\<close>, an iteration that
  does not raise continues and no sample has ended.\<close>

lemma decode_step_never:
  assumes f: "eos_never net nv" and s: "decode_step M net nv ns i st = Inr x"
    and q: "length (ended st) = bs \<and> length (end_lens st) = bs \<and> (\<forall>b<bs. \<not> ended st ! b)"
    and pos: "0 < bs"
  shows "\<exists>s. x = Continue s
      \<and> (length (ended s) = bs \<and> length (end_lens s) = bs \<and> (\<forall>b<bs. \<not> ended s ! b))"
proof -
  have len: "length (end_lens st) = length (ended st)" using q by simp
  have none: "\<forall>b<length (ended st). \<not> ended st ! b" using q by simp
  have pos': "0 < length (ended st)" using q pos by simp
  from s show ?thesis
  proof (cases rule: decode_step_Inr_cases)
    case (br out_dec kv e1 l1)
    from eos_gate_never [OF f br(2) len none pos'] show ?thesis by simp
  next
    case (co out_dec kv e1 l1 tok app)
    from eos_gate_never [OF f co(2) len none pos'] have
      "length e1 = bs \<and> length l1 = bs \<and> (\<forall>b<bs. \<not> e1 ! b)" using q by simp
    then show ?thesis using co(4) by simp
  qed
qed

lemma decode_loop_no_break:
  assumes l: "decode_loop M net nv ns i st = Inr st'" and q: "Q st"
    and step: "\<And>i st x. Q st \<Longrightarrow> decode_step M net nv ns i st = Inr x
                 \<Longrightarrow> \<exists>s. x = Continue s \<and> Q s"
  shows "Q st'"
  using l q
proof (induction "500 - i" arbitrary: i st)
  case 0
  then have "\<not> i < 500" by simp
  then have "decode_loop M net nv ns i st = Inr st" by (subst decode_loop.simps) simp
  then show ?case using "0.prems" by simp
next
  case (Suc n)
  then have i: "i < 500" by simp
  note u = decode_loop_unfold [OF i, of M net nv ns st]
  obtain x where x: "decode_step M net nv ns i st = Inr x"
    using u Suc.prems(1) by (cases "decode_step M net nv ns i st") simp_all
  from step [OF Suc.prems(2) x] obtain s where s: "x = Continue s" "Q s" by blast
  have l': "decode_loop M net nv ns (Suc i) s = Inr st'" using u x s(1) Suc.prems(1) by simp
  have n: "n = 500 - Suc i" using Suc.hyps(2) by simp
  show ?case by (rule Suc.hyps(1) [OF n l' s(2)])
qed

text \<open>When no row ever has the end-of-sequence class as its \<open>argmax\<close>, a run that does not
  raise appends 500 entries and every sample keeps length 0.\<close>

lemma decode_loop_never:
  assumes f: "eos_never net nv" and pos: "0 < bs"
    and l: "decode_loop M net nv ns 0 (init_state net bs) = Inr st'"
  shows "length (pred_seq_logits st') = 500"
    and "\<forall>b<bs. \<not> ended st' ! b \<and> end_lens st' ! b = 0"
proof -
  let ?Q = "\<lambda>s::('a, 'b) decode_state.
     length (ended s) = bs \<and> length (end_lens s) = bs \<and> (\<forall>b<bs. \<not> ended s ! b)"
  have q0: "?Q (init_state net bs)" by (simp add: init_state_def)
  have q: "?Q st'"
    by (rule decode_loop_no_break [where Q = ?Q, OF l q0]) (rule decode_step_never [OF f _ _ pos])
  have fin: "decode_final M bs (init_state net bs) st'"
    using decode_loop_final [OF l decode_inv_init] by simp
  have "\<not> ended st' ! 0" using q pos by simp
  then have "\<not> list_all id (ended st')" using all_ended [of "ended st'" 0] q pos by auto
  then have "\<not> length (pred_seq_logits st') < 500" using fin unfolding decode_final_def by blast
  moreover have "length (pred_seq_logits st') \<le> 500" using fin unfolding decode_final_def by blast
  ultimately show "length (pred_seq_logits st') = 500" by simp
  have "\<forall>b<bs. \<not> ended st' ! b \<longrightarrow> end_lens st' ! b = 0"
    using fin unfolding decode_final_def by blast
  then show "\<forall>b<bs. \<not> ended st' ! b \<and> end_lens st' ! b = 0" using q by simp
qed


section \<open>Early stop of the decoding loop\<close>

lemma eos_check_break_iff:
  assumes "eos_check nv V i sim e0 l0 = Inr x" and "length l0 = length e0"
  shows "\<exists>is_eos stop. argmax_rows (nv - 1) V sim = Inr is_eos
         \<and> broadcast_to (length e0) (map (\<lambda>k. int k = nv - 2) is_eos) = Inr stop
         \<and> ((\<exists>r. x = Break r) \<longleftrightarrow> (\<forall>b<length e0. stop ! b \<or> e0 ! b) \<and> 4 < i)"
proof (rule eos_check_cases [OF assms])
  fix stop e1 l1
  assume a: "length e1 = length e0"
    and e: "\<forall>b<length e0. e1 ! b = (stop ! b \<or> e0 ! b)"
    and y: "x = (if list_all id e1 \<and> 4 < i then Break (e1, l1) else Continue (e1, l1))"
    and x: "\<exists>is_eos. argmax_rows (nv - 1) V sim = Inr is_eos
            \<and> broadcast_to (length e0) (map (\<lambda>k. int k = nv - 2) is_eos) = Inr stop"
  have "list_all id e1 \<longleftrightarrow> (\<forall>b<length e0. stop ! b \<or> e0 ! b)"
    using a e by (simp add: list_all_length)
  then have "(\<exists>r. x = Break r) \<longleftrightarrow> (\<forall>b<length e0. stop ! b \<or> e0 ! b) \<and> 4 < i"
    using y by (cases "list_all id e1 \<and> 4 < i") auto
  then show ?thesis using x by blast
qed

lemma decode_loop_stop_cases:
  assumes l: "decode_loop M net nv ns 0 (init_state net bs) = Inr st'"
  shows "length (pred_seq_logits st') \<le> 500"
    and "length (pred_seq_logits st') < 500 \<longleftrightarrow> self_pred_eos M \<and> list_all id (ended st')"
    and "length (pred_seq_logits st') < 500 \<longrightarrow> 5 \<le> length (pred_seq_logits st')
           \<and> (length (pred_seq_logits st') = 5
               \<or> (\<exists>b<bs. end_lens st' ! b = int (length (pred_seq_logits st'))))"
proof -
  have fin: "decode_final M bs (init_state net bs) st'"
    using decode_loop_final [OF l decode_inv_init] by simp
  show a: "length (pred_seq_logits st') \<le> 500" using fin unfolding decode_final_def by blast
  show "length (pred_seq_logits st') < 500 \<longrightarrow> 5 \<le> length (pred_seq_logits st')
           \<and> (length (pred_seq_logits st') = 5
               \<or> (\<exists>b<bs. end_lens st' ! b = int (length (pred_seq_logits st'))))"
    using fin unfolding decode_final_def by blast
  have b: "length (pred_seq_logits st') < 500 \<longrightarrow> self_pred_eos M \<and> list_all id (ended st')"
    using fin unfolding decode_final_def by blast
  have c: "length (pred_seq_logits st') = 500 \<and> self_pred_eos M \<longrightarrow> \<not> list_all id (ended st')"
    using fin unfolding decode_final_def by blast
  show "length (pred_seq_logits st') < 500 \<longleftrightarrow> self_pred_eos M \<and> list_all id (ended st')"
    using a b c by (cases "length (pred_seq_logits st') = 500") auto
qed

text \<open>
  Claim C1.  First, one iteration under \<open>pred_eos\<close>: the stop state of a sample is that the
  \<open>argmax\<close> of its first \<open>num_vocal - 1\<close> logits is \<open>num_vocal - 2\<close>, and the loop
  breaks exactly when every sample has stopped now or earlier and \<open>seq_i > 4\<close>.  Second,
  a run that returns: at most 500 entries are appended; fewer than 500 exactly when
  the module predicts end-of-sequence and every sample has ended, and then at least 5, and
  exactly 5 unless some sample ended in the last iteration; with the end-of-sequence class
  forced from the first iteration exactly 5 entries are appended; when no row ever has the
  end-of-sequence class, all 500.  Third, without nucleus sampling the run does return when
  both \<open>argmax\<close> calls are defined.  The number of appended entries is the number of
  completed iterations; a break happens inside the next one.
\<close>

theorem decoding_early_stop:
  "(eos_check nv V i sim e0 l0 = Inr x \<and> length l0 = length e0 \<longrightarrow>
      (\<exists>is_eos stop. argmax_rows (nv - 1) V sim = Inr is_eos
         \<and> broadcast_to (length e0) (map (\<lambda>k. int k = nv - 2) is_eos) = Inr stop
         \<and> ((\<exists>r. x = Break r) \<longleftrightarrow> (\<forall>b<length e0. stop ! b \<or> e0 ! b) \<and> 4 < i)))
   \<and> (decode_loop M net nv ns 0 (init_state net bs) = Inr st' \<longrightarrow>
        length (pred_seq_logits st') \<le> 500
      \<and> (length (pred_seq_logits st') < 500 \<longleftrightarrow> self_pred_eos M \<and> list_all id (ended st'))
      \<and> (length (pred_seq_logits st') < 500 \<longrightarrow> 5 \<le> length (pred_seq_logits st')
           \<and> (length (pred_seq_logits st') = 5
               \<or> (\<exists>b<bs. end_lens st' ! b = int (length (pred_seq_logits st')))))
      \<and> (self_pred_eos M \<and> eos_forced net nv \<longrightarrow> length (pred_seq_logits st') = 5)
      \<and> (eos_never net nv \<and> 0 < bs \<longrightarrow> length (pred_seq_logits st') = 500))
   \<and> (greedy_defined net nv bs \<longrightarrow>
        (\<exists>s. decode_loop M net nv False 0 (init_state net bs) = Inr s))"
proof (intro conjI impI)
  assume a: "eos_check nv V i sim e0 l0 = Inr x \<and> length l0 = length e0"
  show "\<exists>is_eos stop. argmax_rows (nv - 1) V sim = Inr is_eos
         \<and> broadcast_to (length e0) (map (\<lambda>k. int k = nv - 2) is_eos) = Inr stop
         \<and> ((\<exists>r. x = Break r) \<longleftrightarrow> (\<forall>b<length e0. stop ! b \<or> e0 ! b) \<and> 4 < i)"
    by (rule eos_check_break_iff [OF conjunct1 [OF a] conjunct2 [OF a]])
next
  assume l: "decode_loop M net nv ns 0 (init_state net bs) = Inr st'"
  show "length (pred_seq_logits st') \<le> 500" by (rule decode_loop_stop_cases(1) [OF l])
  show "length (pred_seq_logits st') < 500 \<longleftrightarrow> self_pred_eos M \<and> list_all id (ended st')"
    by (rule decode_loop_stop_cases(2) [OF l])
  show "self_pred_eos M \<and> eos_forced net nv \<Longrightarrow> length (pred_seq_logits st') = 5"
    using decode_loop_forced(1) [OF _ _ l] by blast
  show "eos_never net nv \<and> 0 < bs \<Longrightarrow> length (pred_seq_logits st') = 500"
    using decode_loop_never(1) [OF _ _ l] by blast
  assume "length (pred_seq_logits st') < 500"
  then show "5 \<le> length (pred_seq_logits st')"
    and "length (pred_seq_logits st') = 5
               \<or> (\<exists>b<bs. end_lens st' ! b = int (length (pred_seq_logits st')))"
    using decode_loop_stop_cases(3) [OF l] by blast+
next
  assume g: "greedy_defined net nv bs"
  show "\<exists>s. decode_loop M net nv False 0 (init_state net bs) = Inr s"
  proof (rule decode_loop_defined [OF _ decode_inv_init])
    fix i and st :: "('a, 'b) decode_state"
    assume "decode_inv M bs i st"
    then have "length (ended st) = bs" by (rule decode_invD(2))
    then show "\<exists>x. decode_step M net nv False i st = Inr x"
      by (rule decode_step_greedy_defined [OF g])
  qed
qed

lemma example_net_eos_forced: "eos_forced example_net_eos 3"
  by (simp add: eos_forced_def example_net_eos_def py_take_def argmax_def)

lemma example_net_eos_greedy: "greedy_defined example_net_eos 3 1"
  by (simp add: greedy_defined_def example_net_eos_def argmax_rows_def py_take_def argmax_def
      upt_rec)

lemma example_net_never: "eos_never example_net 3"
  by (simp add: eos_never_def example_net_def py_take_def argmax_def)

lemma example_net_greedy: "greedy_defined example_net 3 1"
  by (simp add: greedy_defined_def example_net_def argmax_rows_def py_take_def argmax_def
      upt_rec)

lemma example_eos_check:
  "eos_check 3 3 5 [[Fin 0, Fin 1, Fin 0]] [False] [0] = Inr (Break ([True], [5]))"
  by (simp add: eos_check_def argmax_rows_def py_take_def argmax_def upt_rec broadcast_to_def)

text \<open>Claim C1 on a batch of one sample: with the end-of-sequence class forced the loop
  breaks after five entries; with a classifier that never produces it, after 500.\<close>

theorem decoding_early_stop_witness:
  "eos_check 3 3 5 [[Fin 0, Fin 1, Fin 0]] [False] [0] = Inr (Break ([True], [5]))
   \<and> self_pred_eos example_module \<and> eos_forced example_net_eos 3
   \<and> greedy_defined example_net_eos 3 1
   \<and> (\<exists>s. decode_loop example_module example_net_eos 3 False 0 (init_state example_net_eos 1)
            = Inr s
          \<and> length (pred_seq_logits s) = 5 \<and> list_all id (ended s))
   \<and> eos_never example_net 3 \<and> greedy_defined example_net 3 1
   \<and> (\<exists>s. decode_loop example_module example_net 3 False 0 (init_state example_net 1) = Inr s
          \<and> length (pred_seq_logits s) = 500 \<and> \<not> list_all id (ended s))"
proof -
  have p: "self_pred_eos example_module" by (simp add: example_module_def)
  have c: "length [0::int] = length [False]" by simp
  note t1 = decoding_early_stop [where M = example_module and net = example_net_eos
      and nv = 3 and bs = 1 and V = 3 and i = 5 and sim = "[[Fin 0, Fin 1, Fin 0]]"
      and ?e0.0 = "[False]" and ?l0.0 = "[0]" and x = "Break ([True], [5])" and ns = False]
  from t1 [where st' = "init_state example_net_eos 1"] example_net_eos_greedy obtain s1 where
    s1: "decode_loop example_module example_net_eos 3 False 0 (init_state example_net_eos 1)
           = Inr s1" by blast
  note u1 = conjunct1 [OF conjunct2 [OF t1 [where st' = s1]], rule_format, OF s1]
  have a1: "length (pred_seq_logits s1) = 5" using u1 p example_net_eos_forced by blast
  then have b1: "list_all id (ended s1)" using u1 by simp
  note t2 = decoding_early_stop [where M = example_module and net = example_net
      and nv = 3 and bs = 1 and V = 3 and i = 5 and sim = "[[Fin 0, Fin 1, Fin 0]]"
      and ?e0.0 = "[False]" and ?l0.0 = "[0]" and x = "Break ([True], [5])" and ns = False]
  from t2 [where st' = "init_state example_net 1"] example_net_greedy obtain s2 where
    s2: "decode_loop example_module example_net 3 False 0 (init_state example_net 1)
           = Inr s2" by blast
  note u2 = conjunct1 [OF conjunct2 [OF t2 [where st' = s2]], rule_format, OF s2]
  have a2: "length (pred_seq_logits s2) = 500" using u2 example_net_never by simp
  then have b2: "\<not> list_all id (ended s2)" using u2 p by simp
  show ?thesis
    using example_eos_check p example_net_eos_forced example_net_eos_greedy s1 a1 b1
      example_net_never example_net_greedy s2 a2 b2 by blast
qed


section \<open>Lengths of the returned sequences\<close>

lemma decode_loop_invariant:
  assumes l: "decode_loop M net nv ns i st = Inr st'" and q: "Q st"
    and step: "\<And>i st s. Q st \<Longrightarrow> decode_step M net nv ns i st = Inr (Break s)
                   \<or> decode_step M net nv ns i st = Inr (Continue s) \<Longrightarrow> Q s"
  shows "Q st'"
  using l q
proof (induction "500 - i" arbitrary: i st)
  case 0
  then have "\<not> i < 500" by simp
  then have "decode_loop M net nv ns i st = Inr st" by (subst decode_loop.simps) simp
  then show ?case using "0.prems" by simp
next
  case (Suc n)
  then have i: "i < 500" by simp
  note u = decode_loop_unfold [OF i, of M net nv ns st]
  obtain x where x: "decode_step M net nv ns i st = Inr x"
    using u Suc.prems(1) by (cases "decode_step M net nv ns i st") simp_all
  show ?case
  proof (cases x)
    case (Break s)
    then have "st' = s" using u x Suc.prems(1) by simp
    then show ?thesis using step [OF Suc.prems(2), of i s] x Break by simp
  next
    case (Continue s)
    have qs: "Q s" using step [OF Suc.prems(2), of i s] x Continue by simp
    have l': "decode_loop M net nv ns (Suc i) s = Inr st'"
      using u x Continue Suc.prems(1) by simp
    have n: "n = 500 - Suc i" using Suc.hyps(2) by simp
    show ?thesis by (rule Suc.hyps(1) [OF n l' qs])
  qed
qed

lemma decode_step_greedy_rows:
  assumes g: "greedy_defined net nv bs"
    and q: "\<forall>t\<in>set (pred_seq_logits st). length t = bs"
    and s: "decode_step M net nv False i st = Inr (Break s)
              \<or> decode_step M net nv False i st = Inr (Continue s)"
  shows "\<forall>t\<in>set (pred_seq_logits s). length t = bs"
proof -
  from s obtain x where x: "decode_step M net nv False i st = Inr x"
    "x = Break s \<or> x = Continue s" by blast
  from x(1) show ?thesis
  proof (cases rule: decode_step_Inr_cases)
    case (br out_dec kv e1 l1)
    then have "pred_seq_logits s = pred_seq_logits st" using x(2) by auto
    then show ?thesis using q by simp
  next
    case (co out_dec kv e1 l1 tok app)
    have "app = vocal_classifier net out_dec"
      using co(3) by (auto simp: sample_token_def greedy_sample_def split: sum.splits)
    then have "length app = bs" using g unfolding greedy_defined_def by simp
    moreover have "pred_seq_logits s = pred_seq_logits st @ [app]" using co(4) x(2) by auto
    ultimately show ?thesis using q by simp
  qed
qed

lemma cat_steps_defined:
  assumes "steps \<noteq> []" and "\<forall>t\<in>set steps. length t = n"
  shows "\<exists>seqs. cat_steps steps = Inr seqs \<and> length seqs = n"
proof (cases steps)
  case Nil
  then show ?thesis using assms(1) by simp
next
  case (Cons a r)
  then have "list_all (\<lambda>t. length t = length a) r" "length a = n"
    using assms(2) by (simp_all add: list_all_iff)
  then show ?thesis by (simp add: cat_steps_def Cons)
qed

lemma decode_final_nonempty:
  assumes "decode_final M bs st st'"
  shows "pred_seq_logits st' \<noteq> []"
proof -
  have "length (pred_seq_logits st') < 500 \<longrightarrow> 5 \<le> length (pred_seq_logits st')"
    using assms unfolding decode_final_def by blast
  then have "0 < length (pred_seq_logits st')" by linarith
  then show ?thesis by auto
qed

text \<open>Without nucleus sampling the whole inference branch returns one sequence for each
  sample.\<close>

lemma forward_eval_greedy_defined:
  assumes g: "greedy_defined net nv bs"
  shows "\<exists>res. forward_eval M net nv False bs = Inr res \<and> length res = bs"
proof -
  have "\<exists>st'. decode_loop M net nv False 0 (init_state net bs) = Inr st'"
  proof (rule decode_loop_defined [OF _ decode_inv_init])
    fix i and st :: "('a, 'b) decode_state"
    assume "decode_inv M bs i st"
    then have "length (ended st) = bs" by (rule decode_invD(2))
    then show "\<exists>x. decode_step M net nv False i st = Inr x"
      by (rule decode_step_greedy_defined [OF g])
  qed
  then obtain st' where l: "decode_loop M net nv False 0 (init_state net bs) = Inr st'"
    by blast
  have fin: "decode_final M bs (init_state net bs) st'"
    using decode_loop_final [OF l decode_inv_init] by simp
  have q0: "\<forall>t\<in>set (pred_seq_logits (init_state net bs)). length t = bs"
    by (simp add: init_state_def)
  have q: "\<forall>t\<in>set (pred_seq_logits st'). length t = bs"
    by (rule decode_loop_invariant
          [where Q = "\<lambda>s. \<forall>t\<in>set (pred_seq_logits s). length t = bs", OF l q0])
       (rule decode_step_greedy_rows [OF g])
  from cat_steps_defined [OF decode_final_nonempty [OF fin] q] obtain seqs where
    c: "cat_steps (pred_seq_logits st') = Inr seqs" "length seqs = bs" by blast
  have le: "length (end_lens st') = bs" using fin unfolding decode_final_def by blast
  show ?thesis using l c le by (simp add: forward_eval_def Let_def)
qed

lemma forward_eval_Inr:
  assumes "forward_eval M net nv ns bs = Inr res" and "self_pred_eos M"
  shows "\<exists>st' seqs. decode_loop M net nv ns 0 (init_state net bs) = Inr st'
     \<and> cat_steps (pred_seq_logits st') = Inr seqs
     \<and> res = map (\<lambda>(end_idx, psl). py_take end_idx psl) (zip (end_lens st') seqs)"
proof (cases "decode_loop M net nv ns 0 (init_state net bs)")
  case (Inl e)
  then show ?thesis using assms(1) by (simp add: forward_eval_def)
next
  case (Inr st')
  show ?thesis
  proof (cases "cat_steps (pred_seq_logits st')")
    case (Inl e)
    then show ?thesis using assms(1) Inr by (simp add: forward_eval_def Let_def)
  next
    case r: (Inr seqs)
    then show ?thesis using assms Inr by (simp add: forward_eval_def Let_def)
  qed
qed

text \<open>Under \<open>pred_eos\<close> a returned result has at most one sequence for each sample, and a
  sample whose length is 0 gets the empty sequence.\<close>

lemma forward_eval_zero_len:
  assumes f: "forward_eval M net nv ns bs = Inr res" and p: "self_pred_eos M"
  shows "\<exists>st'. decode_loop M net nv ns 0 (init_state net bs) = Inr st'
     \<and> length res \<le> bs
     \<and> (\<forall>b<length res. (\<not> ended st' ! b \<longrightarrow> end_lens st' ! b = 0)
           \<and> (end_lens st' ! b = 0 \<longrightarrow> res ! b = []))"
proof -
  from forward_eval_Inr [OF f p] obtain st' seqs where
    l: "decode_loop M net nv ns 0 (init_state net bs) = Inr st'"
    and r: "res = map (\<lambda>(end_idx, psl). py_take end_idx psl) (zip (end_lens st') seqs)"
    by blast
  have fin: "decode_final M bs (init_state net bs) st'"
    using decode_loop_final [OF l decode_inv_init] by simp
  have le: "length (end_lens st') = bs" using fin unfolding decode_final_def by blast
  have z: "\<forall>b<bs. \<not> ended st' ! b \<longrightarrow> end_lens st' ! b = 0"
    using fin unfolding decode_final_def by blast
  have n: "length res \<le> bs" using r le by simp
  have "\<forall>b<length res. end_lens st' ! b = 0 \<longrightarrow> res ! b = []"
    using r by (simp add: py_take_def)
  then show ?thesis using l n z by auto
qed


lemma eos_check_accumulate:
  assumes "eos_check nv V i sim e0 l0 = Inr x" and "length l0 = length e0"
  shows "\<exists>stop e1 l1. (x = Break (e1, l1) \<or> x = Continue (e1, l1))
     \<and> (\<exists>is_eos. argmax_rows (nv - 1) V sim = Inr is_eos
           \<and> broadcast_to (length e0) (map (\<lambda>k. int k = nv - 2) is_eos) = Inr stop)
     \<and> (\<forall>b<length e0. l1 ! b = l0 ! b + int i * (if \<not> e0 ! b \<and> stop ! b then 1 else 0))"
proof (rule eos_check_cases [OF assms])
  fix stop e1 l1
  assume l: "\<forall>b<length e0. l1 ! b = l0 ! b + int i * (if \<not> e0 ! b \<and> stop ! b then 1 else 0)"
    and y: "x = (if list_all id e1 \<and> 4 < i then Break (e1, l1) else Continue (e1, l1))"
    and x: "\<exists>is_eos. argmax_rows (nv - 1) V sim = Inr is_eos
            \<and> broadcast_to (length e0) (map (\<lambda>k. int k = nv - 2) is_eos) = Inr stop"
  have "x = Break (e1, l1) \<or> x = Continue (e1, l1)"
    using y by (cases "list_all id e1 \<and> 4 < i") simp_all
  then show ?thesis using l x by blast
qed

text \<open>A sample that has ended after the first iteration, that is, whose first
  end-of-sequence step is step 0, gets the empty sequence.\<close>

lemma forward_eval_eos_at_step_0:
  assumes f: "forward_eval M net nv ns bs = Inr res" and p: "self_pred_eos M"
    and s: "decode_step M net nv ns 0 (init_state net bs) = Inr (Continue st1)"
    and b: "b < length res" and e: "ended st1 ! b"
  shows "res ! b = []"
proof -
  from forward_eval_zero_len [OF f p] obtain st' where
    l: "decode_loop M net nv ns 0 (init_state net bs) = Inr st'"
    and n: "length res \<le> bs"
    and z: "\<forall>b<length res. end_lens st' ! b = 0 \<longrightarrow> res ! b = []"
    by blast
  have b': "b < bs" using b n by simp
  note u = decode_loop_unfold [of 0 M net nv ns "init_state net bs", simplified]
  have l': "decode_loop M net nv ns (Suc 0) st1 = Inr st'" using l u s by simp
  have inv1: "decode_inv M bs (Suc 0) st1"
    by (rule decode_step_Continue_inv(1) [OF s decode_inv_init])
  have "0 \<le> end_lens st1 ! b \<and> end_lens st1 ! b < int (Suc 0)"
    using decode_invD(5) [OF inv1] b' e by blast
  then have z1: "end_lens st1 ! b = 0" by simp
  have fin: "decode_final M bs st1 st'" using decode_loop_final [OF l' inv1] by simp
  have "end_lens st' ! b = end_lens st1 ! b"
    using fin b' e unfolding decode_final_def by blast
  then show ?thesis using z b z1 by simp
qed

lemma forward_eval_never:
  assumes f: "forward_eval M net nv ns bs = Inr res" and p: "self_pred_eos M"
    and n: "eos_never net nv"
  shows "\<forall>b<length res. res ! b = []"
proof (intro allI impI)
  fix b assume b: "b < length res"
  from forward_eval_zero_len [OF f p] obtain st' where
    l: "decode_loop M net nv ns 0 (init_state net bs) = Inr st'"
    and le: "length res \<le> bs"
    and z: "\<forall>b<length res. end_lens st' ! b = 0 \<longrightarrow> res ! b = []"
    by blast
  have pos: "0 < bs" using b le by simp
  have "end_lens st' ! b = 0" using decode_loop_never(2) [OF n pos l] b le by simp
  then show "res ! b = []" using z b by simp
qed

text \<open>
  Claim C10.  Under \<open>pred_eos\<close>: in one iteration the length of a sample grows by
  \<open>seq_i\<close> exactly when the sample had not ended and stops now, and by nothing otherwise.
  In a returned result every sample that has not ended within the 500 iterations has
  length 0, and every sample of length 0 gets the empty sequence; so when no row ever has
  the end-of-sequence class every returned sequence is empty, and so is the sequence of a
  sample that ended in iteration 0.  Without nucleus sampling the branch does return, with
  one sequence for each sample, when both \<open>argmax\<close> calls are defined.
\<close>

theorem unfinished_sample_empty:
  "(eos_check nv V i sim e0 l0 = Inr x \<and> length l0 = length e0 \<longrightarrow>
      (\<exists>stop e1 l1. (x = Break (e1, l1) \<or> x = Continue (e1, l1))
         \<and> (\<exists>is_eos. argmax_rows (nv - 1) V sim = Inr is_eos
               \<and> broadcast_to (length e0) (map (\<lambda>k. int k = nv - 2) is_eos) = Inr stop)
         \<and> (\<forall>b<length e0. l1 ! b
               = l0 ! b + int i * (if \<not> e0 ! b \<and> stop ! b then 1 else 0))))
   \<and> (self_pred_eos M \<and> forward_eval M net nv ns bs = Inr res \<longrightarrow>
        (\<exists>st'. decode_loop M net nv ns 0 (init_state net bs) = Inr st'
           \<and> length res \<le> bs
           \<and> (\<forall>b<length res. (\<not> ended st' ! b \<longrightarrow> end_lens st' ! b = 0)
                 \<and> (end_lens st' ! b = 0 \<longrightarrow> res ! b = [])))
        \<and> (eos_never net nv \<longrightarrow> (\<forall>b<length res. res ! b = []))
        \<and> (decode_step M net nv ns 0 (init_state net bs) = Inr (Continue st1)
             \<and> b < length res \<and> ended st1 ! b \<longrightarrow> res ! b = []))
   \<and> (greedy_defined net nv bs \<longrightarrow>
        (\<exists>r. forward_eval M net nv False bs = Inr r \<and> length r = bs))"
proof (intro conjI impI)
  assume a: "eos_check nv V i sim e0 l0 = Inr x \<and> length l0 = length e0"
  show "\<exists>stop e1 l1. (x = Break (e1, l1) \<or> x = Continue (e1, l1))
         \<and> (\<exists>is_eos. argmax_rows (nv - 1) V sim = Inr is_eos
               \<and> broadcast_to (length e0) (map (\<lambda>k. int k = nv - 2) is_eos) = Inr stop)
         \<and> (\<forall>b<length e0. l1 ! b
               = l0 ! b + int i * (if \<not> e0 ! b \<and> stop ! b then 1 else 0))"
    by (rule eos_check_accumulate [OF conjunct1 [OF a] conjunct2 [OF a]])
next
  assume a: "self_pred_eos M \<and> forward_eval M net nv ns bs = Inr res"
  show "\<exists>st'. decode_loop M net nv ns 0 (init_state net bs) = Inr st'
           \<and> length res \<le> bs
           \<and> (\<forall>b<length res. (\<not> ended st' ! b \<longrightarrow> end_lens st' ! b = 0)
                 \<and> (end_lens st' ! b = 0 \<longrightarrow> res ! b = []))"
    by (rule forward_eval_zero_len [OF conjunct2 [OF a] conjunct1 [OF a]])
next
  assume a: "self_pred_eos M \<and> forward_eval M net nv ns bs = Inr res"
    and n: "eos_never net nv"
  show "\<forall>b<length res. res ! b = []"
    by (rule forward_eval_never [OF conjunct2 [OF a] conjunct1 [OF a] n])
next
  assume a: "self_pred_eos M \<and> forward_eval M net nv ns bs = Inr res"
    and c: "decode_step M net nv ns 0 (init_state net bs) = Inr (Continue st1)
             \<and> b < length res \<and> ended st1 ! b"
  show "res ! b = []"
    using forward_eval_eos_at_step_0 [OF conjunct2 [OF a] conjunct1 [OF a]] c by blast
next
  assume "greedy_defined net nv bs"
  then show "\<exists>r. forward_eval M net nv False bs = Inr r \<and> length r = bs"
    by (rule forward_eval_greedy_defined)
qed

lemma example_step_0:
  "decode_step example_module example_net_eos 3 False 0 (init_state example_net_eos 1)
     = Inr (Continue \<lparr>ended = [True], end_lens = [0], input_embed = (), pre_kv = (),
                      pred_seq_logits = [[[Fin 0, Fin 1, Fin 0]]]\<rparr>)"
  by (simp add: decode_step_def eos_gate_def eos_check_def sample_token_def greedy_sample_def
      argmax_rows_def py_take_def argmax_def upt_rec broadcast_to_def init_state_def
      example_module_def example_net_eos_def Let_def)


lemma singleton_empty: "length r = 1 \<Longrightarrow> r ! 0 = [] \<Longrightarrow> r = [[]]"
  by (cases r) auto

text \<open>Claim C10 on a batch of one sample: the result is one empty sequence both when the
  end-of-sequence class never appears and when it appears in iteration 0.\<close>

theorem unfinished_sample_empty_witness:
  "eos_check 3 3 5 [[Fin 0, Fin 1, Fin 0]] [False] [0] = Inr (Break ([True], [5]))
   \<and> length [0::int] = length [False]
   \<and> self_pred_eos example_module
   \<and> eos_never example_net 3 \<and> greedy_defined example_net 3 1
   \<and> forward_eval example_module example_net 3 False 1 = Inr [[]]
   \<and> greedy_defined example_net_eos 3 1
   \<and> decode_step example_module example_net_eos 3 False 0 (init_state example_net_eos 1)
       = Inr (Continue \<lparr>ended = [True], end_lens = [0], input_embed = (), pre_kv = (),
                        pred_seq_logits = [[[Fin 0, Fin 1, Fin 0]]]\<rparr>)
   \<and> forward_eval example_module example_net_eos 3 False 1 = Inr [[]]"
proof -
  have p: "self_pred_eos example_module" by (simp add: example_module_def)
  let ?st1 = "\<lparr>ended = [True], end_lens = [0::int], input_embed = (), pre_kv = (),
                pred_seq_logits = [[[Fin 0, Fin 1, Fin 0]]]\<rparr>"
  note t = unfinished_sample_empty [where M = example_module and nv = 3 and bs = 1
      and V = 3 and i = 5 and sim = "[[Fin 0, Fin 1, Fin 0]]" and ?e0.0 = "[False]"
      and ?l0.0 = "[0]" and x = "Break ([True], [5])" and ns = False and b = 0
      and ?st1.0 = ?st1]
  note g1 = conjunct2 [OF conjunct2 [OF t [where net = example_net and res = "[]"]],
      rule_format, OF example_net_greedy]
  then obtain r1 where r1: "forward_eval example_module example_net 3 False 1 = Inr r1"
    "length r1 = 1" by blast
  note n1 = conjunct1 [OF conjunct2 [OF t [where net = example_net and res = r1]],
      rule_format, OF conjI [OF p r1(1)]]
  have "r1 ! 0 = []" using n1 example_net_never r1(2) by simp
  then have e1: "r1 = [[]]" using r1(2) by (rule singleton_empty [rotated])
  note g2 = conjunct2 [OF conjunct2 [OF t [where net = example_net_eos and res = "[]"]],
      rule_format, OF example_net_eos_greedy]
  then obtain r2 where r2: "forward_eval example_module example_net_eos 3 False 1 = Inr r2"
    "length r2 = 1" by blast
  note n2 = conjunct1 [OF conjunct2 [OF t [where net = example_net_eos and res = r2]],
      rule_format, OF conjI [OF p r2(1)]]
  have "r2 ! 0 = []" using n2 example_step_0 r2(2) by simp
  then have e2: "r2 = [[]]" using r2(2) by (rule singleton_empty [rotated])
  show ?thesis
    using example_eos_check p example_net_never example_net_greedy r1(1) e1
      example_net_eos_greedy example_step_0 r2(1) e2 by simp
qed


section \<open>The update of the reference points\<close>

lemma set_expand: "set (expand n xs) \<subseteq> set xs"
  by (auto simp: expand_def)

lemma expand_same: "length xs = n \<Longrightarrow> expand n xs = xs"
  by (simp add: expand_def)

lemma in_set_map_pairE:
  assumes "r \<in> set (map (\<lambda>(a, b). g a b) zs)"
  obtains a b where "(a, b) \<in> set zs" "r = g a b"
  using assms by auto

lemma in_set_zip_expandD:
  assumes "(a, b) \<in> set (zip (expand n xs) (expand m ys))"
  shows "a \<in> set xs" and "b \<in> set ys"
  using assms set_expand [of n xs] set_expand [of m ys]
  by (blast dest: set_zip_leftD set_zip_rightD)+

lemma all3_zip3_with:
  assumes x: "all3 Pa xs" and y: "all3 Pb ys"
    and f: "\<And>a b. Pa a \<Longrightarrow> Pb b \<Longrightarrow> P (f a b)"
  shows "all3 P (zip3_with f B Q C xs ys)"
  unfolding all3_def
proof (intro ballI)
  fix rb pt e
  assume rb: "rb \<in> set (zip3_with f B Q C xs ys)" and pt: "pt \<in> set rb" and e: "e \<in> set pt"
  from rb [unfolded zip3_with_def] obtain xb yb where
    b: "(xb, yb) \<in> set (zip (expand B xs) (expand B ys))"
    and rb': "rb = map (\<lambda>(xq, yq). map (\<lambda>(a, b). f a b) (zip (expand C xq) (expand C yq)))
          (zip (expand Q xb) (expand Q yb))"
    by (rule in_set_map_pairE)
  note xb = in_set_zip_expandD [OF b]
  from pt [unfolded rb'] obtain xq yq where
    q: "(xq, yq) \<in> set (zip (expand Q xb) (expand Q yb))"
    and pt': "pt = map (\<lambda>(a, b). f a b) (zip (expand C xq) (expand C yq))"
    by (rule in_set_map_pairE)
  note xq = in_set_zip_expandD [OF q]
  from e [unfolded pt'] obtain a c where c: "(a, c) \<in> set (zip (expand C xq) (expand C yq))"
    and e': "e = f a c" by (rule in_set_map_pairE)
  note a = in_set_zip_expandD [OF c]
  have "Pa a" using x xb(1) xq(1) a(1) unfolding all3_def by blast
  moreover have "Pb c" using y xb(2) xq(2) a(2) unfolding all3_def by blast
  ultimately show "P e" unfolding e' by (rule f)
qed

lemma all3_map:
  assumes "all3 P xs" and "\<And>a. P a \<Longrightarrow> Q (f a)"
  shows "all3 Q (map (map (map f)) xs)"
  using assms unfolding all3_def by auto

lemma all3_take: "all3 P xs \<Longrightarrow> all3 P (map (map (take 2)) xs)"
  unfolding all3_def by (auto dest: in_set_takeD)

lemma all3_assign:
  assumes t: "all3 P ts" and v: "all3 P vs"
  shows "all3 P (map (\<lambda>(tb, vb).
                     map (\<lambda>(tq, vq). expand k vq @ drop 2 tq) (zip tb (expand Q vb)))
                    (zip ts (expand B vs)))"
  unfolding all3_def
proof (intro ballI)
  fix rb pt e
  assume rb: "rb \<in> set (map (\<lambda>(tb, vb).
                     map (\<lambda>(tq, vq). expand k vq @ drop 2 tq) (zip tb (expand Q vb)))
                    (zip ts (expand B vs)))" and pt: "pt \<in> set rb" and e: "e \<in> set pt"
  from rb obtain tb vb where b: "(tb, vb) \<in> set (zip ts (expand B vs))"
    and rb': "rb = map (\<lambda>(tq, vq). expand k vq @ drop 2 tq) (zip tb (expand Q vb))"
    by (rule in_set_map_pairE)
  have tb: "tb \<in> set ts" using b by (rule set_zip_leftD)
  have "vb \<in> set (expand B vs)" using b by (rule set_zip_rightD)
  then have vb: "vb \<in> set vs" using set_expand [of B vs] by blast
  from pt [unfolded rb'] obtain tq vq where q: "(tq, vq) \<in> set (zip tb (expand Q vb))"
    and pt': "pt = expand k vq @ drop 2 tq" by (rule in_set_map_pairE)
  have tq: "tq \<in> set tb" using q by (rule set_zip_leftD)
  have "vq \<in> set (expand Q vb)" using q by (rule set_zip_rightD)
  then have vq: "vq \<in> set vb" using set_expand [of Q vb] by blast
  have "e \<in> set (expand k vq) \<or> e \<in> set (drop 2 tq)" using e unfolding pt' by simp
  then have "e \<in> set vq \<or> e \<in> set tq"
    using set_expand [of k vq] by (blast dest: in_set_dropD)
  then show "P e" using t v tb vb tq vq unfolding all3_def by blast
qed

lemma inverse_sigmoid_Fin:
  assumes "0 < eps"
  shows "\<exists>r. inverse_sigmoid (Fin x) eps = Fin r"
proof -
  define c where "c = min (max x 0) 1"
  have n: "0 < max c eps" and d: "0 < max (1 - c) eps" using assms by (simp_all add: max_def)
  have "inverse_sigmoid (Fin x) eps = flog (fdiv (Fin (max c eps)) (Fin (max (1 - c) eps)))"
    by (simp add: inverse_sigmoid_def inverse_sigmoid_dtype_def inverse_sigmoid_x1_def inverse_sigmoid_x2_def
        inverse_sigmoid_x_def fsub_def c_def)
  also have "\<dots> = flog (Fin (max c eps / max (1 - c) eps))" using d by simp
  also have "\<dots> = Fin (ln (max c eps / max (1 - c) eps))" using n d by simp
  finally show ?thesis by blast
qed

lemma inverse_sigmoid_not_NaN:
  assumes "x \<noteq> NaN"
  shows "\<exists>r. inverse_sigmoid x default_eps = Fin r"
proof -
  have e: "0 < default_eps" by (simp add: default_eps_def)
  show ?thesis
  proof (cases x)
    case (Fin r)
    then show ?thesis using inverse_sigmoid_Fin [OF e] by simp
  next
    case PInf
    have "inverse_sigmoid PInf default_eps = inverse_sigmoid (Fin 1) default_eps"
      by (simp add: inverse_sigmoid_def inverse_sigmoid_dtype_def inverse_sigmoid_x1_def inverse_sigmoid_x2_def
          inverse_sigmoid_x_def)
    then show ?thesis using inverse_sigmoid_Fin [OF e, of 1] PInf by simp
  next
    case NInf
    have "inverse_sigmoid NInf default_eps = inverse_sigmoid (Fin 0) default_eps"
      by (simp add: inverse_sigmoid_def inverse_sigmoid_dtype_def inverse_sigmoid_x1_def inverse_sigmoid_x2_def
          inverse_sigmoid_x_def)
    then show ?thesis using inverse_sigmoid_Fin [OF e, of 0] NInf by simp
  next
    case NaN
    then show ?thesis using assms by simp
  qed
qed

lemma fadd_Fin_not_NaN: "a \<noteq> NaN \<Longrightarrow> fadd a (Fin r) \<noteq> NaN"
  by (cases a) simp_all

lemma fsigmoid_in_unit: "x \<noteq> NaN \<Longrightarrow> in_unit (fsigmoid x)"
proof (cases x)
  case (Fin r)
  have "0 < 1 / (1 + exp (- r))" "1 / (1 + exp (- r)) < 1" by (rule sigmoid_pos, rule sigmoid_lt1)
  then show ?thesis using Fin by (simp add: in_unit_def)
qed (simp_all add: in_unit_def)

lemma in_unit_not_NaN: "in_unit x \<Longrightarrow> x \<noteq> NaN"
  by (auto simp: in_unit_def)


lemma update_reference_Inr_cases:
  assumes "update_reference tmp ref = Inr new"
  obtains (four) n where "pt_coord ref = 4"
      "pt_add tmp (pt_map (\<lambda>x. inverse_sigmoid x default_eps) ref) = Inr n"
      "new = detach (pt_map fsigmoid n)"
  | (two) v n where "pt_coord ref = 2"
      "pt_add (pt_slice2 tmp) (pt_map (\<lambda>x. inverse_sigmoid x default_eps) ref) = Inr v"
      "pt_assign2 tmp v = Inr n" "new = detach (pt_map fsigmoid n)"
proof (cases "pt_coord ref = 4")
  case True
  let ?a = "pt_add tmp (pt_map (\<lambda>x. inverse_sigmoid x default_eps) ref)"
  show ?thesis
  proof (cases ?a)
    case (Inl e)
    then show ?thesis using assms True by (simp add: update_reference_def)
  next
    case (Inr n)
    then have "new = detach (pt_map fsigmoid n)"
      using assms True by (simp add: update_reference_def)
    then show ?thesis using four True Inr by blast
  qed
next
  case False
  show ?thesis
  proof (cases "pt_coord ref = 2")
    case n2: False
    then show ?thesis using assms False by (simp add: update_reference_def)
  next
    case True
    let ?a = "pt_add (pt_slice2 tmp) (pt_map (\<lambda>x. inverse_sigmoid x default_eps) ref)"
    show ?thesis
    proof (cases ?a)
      case (Inl e)
      then show ?thesis using assms True by (simp add: update_reference_def)
    next
      case (Inr v)
      show ?thesis
      proof (cases "pt_assign2 tmp v")
        case (Inl e)
        then show ?thesis using assms True Inr by (simp add: update_reference_def)
      next
        case r: (Inr n)
        then have "new = detach (pt_map fsigmoid n)"
          using assms True Inr by (simp add: update_reference_def)
        then show ?thesis using two True Inr r by blast
      qed
    qed
  qed
qed

lemma pt_add_rows:
  assumes "pt_add a b = Inr n"
  shows "\<exists>B Q C. pt_rows n = zip3_with fadd B Q C (pt_rows a) (pt_rows b)"
proof -
  from assms obtain B where B: "bdim (pt_batch a) (pt_batch b) = Inr B"
    by (cases "bdim (pt_batch a) (pt_batch b)") (simp_all add: pt_add_def)
  from assms B obtain Q where Q: "bdim (pt_query a) (pt_query b) = Inr Q"
    by (cases "bdim (pt_query a) (pt_query b)") (simp_all add: pt_add_def)
  from assms B Q obtain C where C: "bdim (pt_coord a) (pt_coord b) = Inr C"
    by (cases "bdim (pt_coord a) (pt_coord b)") (simp_all add: pt_add_def)
  have "pt_rows n = zip3_with fadd B Q C (pt_rows a) (pt_rows b)"
    using assms B Q C by (auto simp: pt_add_def)
  then show ?thesis by blast
qed

lemma pt_add_not_NaN:
  assumes a: "pt_add t (pt_map (\<lambda>x. inverse_sigmoid x default_eps) ref) = Inr n"
    and t: "all3 (\<lambda>e. e \<noteq> NaN) (pt_rows t)" and r: "all3 (\<lambda>e. e \<noteq> NaN) (pt_rows ref)"
  shows "all3 (\<lambda>e. e \<noteq> NaN) (pt_rows n)"
proof -
  have i: "all3 (\<lambda>e. \<exists>r. e = Fin r)
             (pt_rows (pt_map (\<lambda>x. inverse_sigmoid x default_eps) ref))"
    unfolding pt_map_def
    using all3_map [where Q = "\<lambda>e. \<exists>r. e = Fin r"
        and f = "\<lambda>x. inverse_sigmoid x default_eps", OF r inverse_sigmoid_not_NaN] by simp
  from pt_add_rows [OF a] obtain B Q C where
    n: "pt_rows n = zip3_with fadd B Q C (pt_rows t)
          (pt_rows (pt_map (\<lambda>x. inverse_sigmoid x default_eps) ref))" by blast
  show ?thesis unfolding n
  proof (rule all3_zip3_with [OF t i])
    fix a b :: fval
    assume "a \<noteq> NaN" "\<exists>r. b = Fin r"
    then show "fadd a b \<noteq> NaN" using fadd_Fin_not_NaN by blast
  qed
qed

lemma pt_assign2_rows:
  assumes "pt_assign2 t v = Inr n"
  shows "pt_rows n = map (\<lambda>(tb, vb).
                     map (\<lambda>(tq, vq). expand (min (pt_coord t) 2) vq @ drop 2 tq)
                       (zip tb (expand (pt_query t) vb)))
                    (zip (pt_rows t) (expand (pt_batch t) (pt_rows v)))"
    and "pt_batch n = pt_batch t" "pt_query n = pt_query t" "pt_coord n = pt_coord t"
  using assms by (auto simp: pt_assign2_def split: if_splits)

text \<open>Every coordinate of an updated reference is a real in \<open>[0, 1]\<close>, when neither the
  output of the regression branch nor the old reference contains a \<open>NaN\<close>.\<close>

lemma update_reference_in_unit:
  assumes u: "update_reference tmp ref = Inr new"
    and t: "all3 (\<lambda>e. e \<noteq> NaN) (pt_rows tmp)" and r: "all3 (\<lambda>e. e \<noteq> NaN) (pt_rows ref)"
  shows "all3 in_unit (pt_rows new)"
  using u
proof (cases rule: update_reference_Inr_cases)
  case (four n)
  have "all3 (\<lambda>e. e \<noteq> NaN) (pt_rows n)" by (rule pt_add_not_NaN [OF four(2) t r])
  from all3_map [where Q = in_unit and f = fsigmoid, OF this fsigmoid_in_unit] show ?thesis
    by (simp add: four(3) detach_def pt_map_def)
next
  case (two v n)
  have "all3 (\<lambda>e. e \<noteq> NaN) (pt_rows (pt_slice2 tmp))"
    using all3_take [OF t] by (simp add: pt_slice2_def)
  then have v: "all3 (\<lambda>e. e \<noteq> NaN) (pt_rows v)" by (rule pt_add_not_NaN [OF two(2) _ r])
  have "all3 (\<lambda>e. e \<noteq> NaN) (pt_rows n)"
    unfolding pt_assign2_rows(1) [OF two(3)] by (rule all3_assign [OF t v])
  from all3_map [where Q = in_unit and f = fsigmoid, OF this fsigmoid_in_unit] show ?thesis
    by (simp add: two(4) detach_def pt_map_def)
qed

lemma update_reference_detached:
  assumes "update_reference tmp ref = Inr new"
  shows "\<not> pt_grad new"
  using assms by (cases rule: update_reference_Inr_cases) (simp_all add: detach_def)


lemma pt_wf_nth:
  assumes "pt_wf p" and "b < pt_batch p"
  shows "length (pt_rows p ! b) = pt_query p"
    and "q < pt_query p \<Longrightarrow> length (pt_rows p ! b ! q) = pt_coord p"
proof -
  have l: "length (pt_rows p) = pt_batch p" using assms(1) by (simp add: pt_wf_def)
  then have m: "pt_rows p ! b \<in> set (pt_rows p)" using assms(2) by simp
  then show q: "length (pt_rows p ! b) = pt_query p" using assms(1) unfolding pt_wf_def by blast
  assume "q < pt_query p"
  then have "pt_rows p ! b ! q \<in> set (pt_rows p ! b)" using q by simp
  then show "length (pt_rows p ! b ! q) = pt_coord p"
    using assms(1) m unfolding pt_wf_def by blast
qed

lemma pt_wf_length: "pt_wf p \<Longrightarrow> length (pt_rows p) = pt_batch p"
  by (simp add: pt_wf_def)

lemma zip3_with_nth:
  assumes "length xs = B" "length ys = B" "b < B"
    and "length (xs ! b) = Q" "length (ys ! b) = Q" "q < Q"
    and "length (xs ! b ! q) = C" "length (ys ! b ! q) = C" "c < C"
  shows "zip3_with f B Q C xs ys ! b ! q ! c = f (xs ! b ! q ! c) (ys ! b ! q ! c)"
    and "length (zip3_with f B Q C xs ys ! b ! q) = C"
    and "length (zip3_with f B Q C xs ys ! b) = Q"
    and "length (zip3_with f B Q C xs ys) = B"
  using assms by (simp_all add: zip3_with_def expand_same)

lemma map3_nth:
  assumes "b < length xs" "q < length (xs ! b)" "c < length (xs ! b ! q)"
  shows "map (map (map f)) xs ! b ! q ! c = f (xs ! b ! q ! c)"
  using assms by simp

lemma pt_wf_map: "pt_wf p \<Longrightarrow> pt_wf (pt_map f p)"
  by (simp add: pt_wf_def pt_map_def)

lemma pt_map_fields:
  "pt_batch (pt_map f p) = pt_batch p" "pt_query (pt_map f p) = pt_query p"
  "pt_coord (pt_map f p) = pt_coord p" "pt_grad (pt_map f p) = pt_grad p"
  "pt_rows (pt_map f p) = map (map (map f)) (pt_rows p)"
  by (simp_all add: pt_map_def)

lemma pt_map_nth:
  assumes "pt_wf p" "b < pt_batch p" "q < pt_query p" "c < pt_coord p"
  shows "pt_rows (pt_map f p) ! b ! q ! c = f (pt_rows p ! b ! q ! c)"
  unfolding pt_map_fields
  by (rule map3_nth) (simp_all add: assms pt_wf_length pt_wf_nth)

text \<open>The sum of two tensors of the same sizes.\<close>

lemma pt_add_same:
  assumes d: "pt_batch a = pt_batch b" "pt_query a = pt_query b" "pt_coord a = pt_coord b"
    and w: "pt_wf a" "pt_wf b"
  shows "\<exists>n. pt_add a b = Inr n \<and> pt_wf n
      \<and> pt_batch n = pt_batch b \<and> pt_query n = pt_query b \<and> pt_coord n = pt_coord b
      \<and> (\<forall>i<pt_batch b. \<forall>q<pt_query b. \<forall>c<pt_coord b.
            pt_rows n ! i ! q ! c = fadd (pt_rows a ! i ! q ! c) (pt_rows b ! i ! q ! c))"
proof -
  let ?B = "pt_batch b" and ?Q = "pt_query b" and ?C = "pt_coord b"
  let ?z = "zip3_with fadd ?B ?Q ?C (pt_rows a) (pt_rows b)"
  let ?n = "\<lparr>pt_batch = ?B, pt_query = ?Q, pt_coord = ?C, pt_rows = ?z,
             pt_grad = (pt_grad a \<or> pt_grad b)\<rparr>"
  have e: "pt_add a b = Inr ?n" using d by (simp add: pt_add_def bdim_def)
  have la: "length (pt_rows a) = ?B" and lb: "length (pt_rows b) = ?B"
    using w d by (simp_all add: pt_wf_length)
  have lz: "length ?z = ?B" using la lb by (simp add: zip3_with_def expand_same)
  have row: "length (?z ! i) = ?Q" if i: "i < ?B" for i
    using la lb i pt_wf_nth(1) [OF w(1), of i] pt_wf_nth(1) [OF w(2), of i] d
    by (simp add: zip3_with_def expand_same)
  have el: "length (?z ! i ! q) = ?C
      \<and> (\<forall>c<?C. ?z ! i ! q ! c = fadd (pt_rows a ! i ! q ! c) (pt_rows b ! i ! q ! c))"
    if i: "i < ?B" and q: "q < ?Q" for i q
  proof -
    have 1: "length (pt_rows a ! i) = ?Q" using pt_wf_nth(1) [OF w(1), of i] i d by simp
    have 2: "length (pt_rows b ! i) = ?Q" using pt_wf_nth(1) [OF w(2), of i] i by simp
    have 3: "length (pt_rows a ! i ! q) = ?C" using pt_wf_nth(2) [OF w(1), of i q] i q d by simp
    have 4: "length (pt_rows b ! i ! q) = ?C" using pt_wf_nth(2) [OF w(2), of i q] i q by simp
    show ?thesis using la lb i 1 2 q 3 4 by (simp add: zip3_with_def expand_same)
  qed
  have wf: "pt_wf ?n"
    unfolding pt_wf_def
  proof (intro conjI ballI)
    show "length (pt_rows ?n) = pt_batch ?n" using lz by simp
  next
    fix rb assume "rb \<in> set (pt_rows ?n)"
    then obtain i where i: "i < ?B" "rb = ?z ! i" using lz by (auto simp: in_set_conv_nth)
    show "length rb = pt_query ?n" using row [OF i(1)] i(2) by simp
  next
    fix rb pt assume "rb \<in> set (pt_rows ?n)" and pt: "pt \<in> set rb"
    then obtain i where i: "i < ?B" "rb = ?z ! i" using lz by (auto simp: in_set_conv_nth)
    from pt obtain q where q: "q < ?Q" "pt = rb ! q"
      using row [OF i(1)] i(2) by (auto simp: in_set_conv_nth)
    show "length pt = pt_coord ?n" using el [OF i(1) q(1)] i(2) q(2) by simp
  qed
  show ?thesis using e wf el by auto
qed


lemma pt_wf_detach: "pt_wf (detach p) = pt_wf p"
  by (simp add: pt_wf_def detach_def)

lemma detach_fields:
  "pt_batch (detach p) = pt_batch p" "pt_query (detach p) = pt_query p"
  "pt_coord (detach p) = pt_coord p" "pt_rows (detach p) = pt_rows p"
  by (simp_all add: detach_def)

text \<open>The update for reference points of four coordinates.\<close>

lemma update_reference_4:
  assumes c: "pt_coord ref = 4" "pt_coord tmp = 4"
    and d: "pt_batch tmp = pt_batch ref" "pt_query tmp = pt_query ref"
    and w: "pt_wf tmp" "pt_wf ref"
  shows "\<exists>new. update_reference tmp ref = Inr new \<and> pt_wf new
      \<and> pt_batch new = pt_batch ref \<and> pt_query new = pt_query ref \<and> pt_coord new = 4
      \<and> (\<forall>b<pt_batch ref. \<forall>q<pt_query ref. \<forall>k<4.
            pt_rows new ! b ! q ! k
              = fsigmoid (fadd (pt_rows tmp ! b ! q ! k)
                          (inverse_sigmoid (pt_rows ref ! b ! q ! k) default_eps)))"
proof -
  let ?i = "pt_map (\<lambda>x. inverse_sigmoid x default_eps) ref"
  have wi: "pt_wf ?i" by (rule pt_wf_map [OF w(2)])
  have di: "pt_batch tmp = pt_batch ?i" "pt_query tmp = pt_query ?i" "pt_coord tmp = pt_coord ?i"
    using c d by (simp_all add: pt_map_fields)
  from pt_add_same [OF di w(1) wi] obtain n where
    n: "pt_add tmp ?i = Inr n" "pt_wf n" "pt_batch n = pt_batch ref" "pt_query n = pt_query ref"
      "pt_coord n = 4"
    and f: "\<forall>b<pt_batch ref. \<forall>q<pt_query ref. \<forall>k<4.
            pt_rows n ! b ! q ! k = fadd (pt_rows tmp ! b ! q ! k) (pt_rows ?i ! b ! q ! k)"
    using c by (auto simp: pt_map_fields)
  let ?new = "detach (pt_map fsigmoid n)"
  have u: "update_reference tmp ref = Inr ?new" using c(1) n(1) by (simp add: update_reference_def)
  have wn: "pt_wf ?new" using n(2) by (simp add: pt_wf_detach pt_wf_map)
  have dn: "pt_batch ?new = pt_batch ref" "pt_query ?new = pt_query ref" "pt_coord ?new = 4"
    using n(3,4,5) by (simp_all add: detach_fields pt_map_fields)
  have "pt_rows ?new ! b ! q ! k
          = fsigmoid (fadd (pt_rows tmp ! b ! q ! k)
                          (inverse_sigmoid (pt_rows ref ! b ! q ! k) default_eps))"
    if b: "b < pt_batch ref" and q: "q < pt_query ref" and k: "k < 4" for b q k
  proof -
    have "pt_rows ?new ! b ! q ! k = fsigmoid (pt_rows n ! b ! q ! k)"
      unfolding detach_fields using pt_map_nth [OF n(2), of b q k fsigmoid] b q k n(3,4,5)
      by simp
    moreover have "pt_rows ?i ! b ! q ! k = inverse_sigmoid (pt_rows ref ! b ! q ! k) default_eps"
      using pt_map_nth [OF w(2), of b q k] b q k c(1) by simp
    ultimately show ?thesis using f b q k by simp
  qed
  then show ?thesis using u wn dn by blast
qed

lemma pt_slice2_wf:
  assumes "pt_wf t" and "2 \<le> pt_coord t"
  shows "pt_wf (pt_slice2 t)" and "pt_coord (pt_slice2 t) = 2"
    and "pt_batch (pt_slice2 t) = pt_batch t" and "pt_query (pt_slice2 t) = pt_query t"
    and "\<And>b q k. b < pt_batch t \<Longrightarrow> q < pt_query t \<Longrightarrow> k < 2
           \<Longrightarrow> pt_rows (pt_slice2 t) ! b ! q ! k = pt_rows t ! b ! q ! k"
proof -
  show "pt_wf (pt_slice2 t)" using assms by (auto simp: pt_wf_def pt_slice2_def)
  show "pt_coord (pt_slice2 t) = 2" using assms(2) by (simp add: pt_slice2_def)
  show "pt_batch (pt_slice2 t) = pt_batch t" "pt_query (pt_slice2 t) = pt_query t"
    by (simp_all add: pt_slice2_def)
  fix b q k assume b: "b < pt_batch t" and q: "q < pt_query t" and k: "k < (2::nat)"
  have 1: "b < length (pt_rows t)" using b assms(1) by (simp add: pt_wf_length)
  have 2: "q < length (pt_rows t ! b)" using pt_wf_nth(1) [OF assms(1) b] q by simp
  show "pt_rows (pt_slice2 t) ! b ! q ! k = pt_rows t ! b ! q ! k"
    using 1 2 k by (simp add: pt_slice2_def)
qed


text \<open>The update for reference points of two coordinates: the first two coordinates
  of the branch output are combined with the old reference, the others are only squashed.\<close>

lemma update_reference_2:
  assumes c: "pt_coord ref = 2" "2 \<le> pt_coord tmp"
    and d: "pt_batch tmp = pt_batch ref" "pt_query tmp = pt_query ref"
    and w: "pt_wf tmp" "pt_wf ref"
  shows "\<exists>new. update_reference tmp ref = Inr new \<and> pt_wf new
      \<and> pt_batch new = pt_batch ref \<and> pt_query new = pt_query ref
      \<and> pt_coord new = pt_coord tmp
      \<and> (\<forall>b<pt_batch ref. \<forall>q<pt_query ref. \<forall>k<pt_coord tmp.
            pt_rows new ! b ! q ! k
              = (if k < 2
                 then fsigmoid (fadd (pt_rows tmp ! b ! q ! k)
                          (inverse_sigmoid (pt_rows ref ! b ! q ! k) default_eps))
                 else fsigmoid (pt_rows tmp ! b ! q ! k)))"
proof -
  let ?i = "pt_map (\<lambda>x. inverse_sigmoid x default_eps) ref"
  let ?s = "pt_slice2 tmp"
  note sl = pt_slice2_wf [OF w(1) c(2)]
  have wi: "pt_wf ?i" by (rule pt_wf_map [OF w(2)])
  have di: "pt_batch ?s = pt_batch ?i" "pt_query ?s = pt_query ?i" "pt_coord ?s = pt_coord ?i"
    using c d sl(2,3,4) by (simp_all add: pt_map_fields)
  from pt_add_same [OF di sl(1) wi] obtain v where
    v: "pt_add ?s ?i = Inr v" "pt_wf v" "pt_batch v = pt_batch ref" "pt_query v = pt_query ref"
      "pt_coord v = 2"
    and f: "\<forall>b<pt_batch ref. \<forall>q<pt_query ref. \<forall>k<2.
            pt_rows v ! b ! q ! k = fadd (pt_rows ?s ! b ! q ! k) (pt_rows ?i ! b ! q ! k)"
    using c by (auto simp: pt_map_fields)
  let ?rows = "map (\<lambda>(tb, vb).
                     map (\<lambda>(tq, vq). expand (min (pt_coord tmp) 2) vq @ drop 2 tq)
                       (zip tb (expand (pt_query tmp) vb)))
                    (zip (pt_rows tmp) (expand (pt_batch tmp) (pt_rows v)))"
  let ?n = "tmp\<lparr>pt_rows := ?rows, pt_grad := (pt_grad tmp \<or> pt_grad v)\<rparr>"
  have m: "min (pt_coord tmp) 2 = 2" using c(2) by simp
  have a: "pt_assign2 tmp v = Inr ?n" using v(3,4,5) d m by (simp add: pt_assign2_def)
  let ?new = "detach (pt_map fsigmoid ?n)"
  have u: "update_reference tmp ref = Inr ?new"
    using c(1) v(1) a by (simp add: update_reference_def)
  have lt: "length (pt_rows tmp) = pt_batch ref" using w(1) d by (simp add: pt_wf_length)
  have lv: "length (pt_rows v) = pt_batch ref" using v(2,3) by (simp add: pt_wf_length)
  have lr: "length ?rows = pt_batch ref" using lt lv d by (simp add: expand_same)
  have row: "?rows ! b = map (\<lambda>(tq, vq). vq @ drop 2 tq) (zip (pt_rows tmp ! b) (pt_rows v ! b))
      \<and> length (pt_rows tmp ! b) = pt_query ref \<and> length (pt_rows v ! b) = pt_query ref"
    if b: "b < pt_batch ref" for b
  proof -
    have 1: "length (pt_rows tmp ! b) = pt_query ref"
      using pt_wf_nth(1) [OF w(1), of b] b d by simp
    have 2: "length (pt_rows v ! b) = pt_query ref"
      using pt_wf_nth(1) [OF v(2), of b] b v(3,4) by simp
    have 3: "\<forall>vq \<in> set (pt_rows v ! b). length vq = 2"
      using v(2,5) lv b unfolding pt_wf_def by (metis nth_mem)
    have "?rows ! b = map (\<lambda>(tq, vq). expand 2 vq @ drop 2 tq)
            (zip (pt_rows tmp ! b) (pt_rows v ! b))"
      using lt lv b d 2 m by (simp add: expand_same)
    also have "\<dots> = map (\<lambda>(tq, vq). vq @ drop 2 tq) (zip (pt_rows tmp ! b) (pt_rows v ! b))"
      using 3 by (auto simp: expand_same dest: set_zip_rightD)
    finally show ?thesis using 1 2 by simp
  qed
  have pt: "?rows ! b ! q = pt_rows v ! b ! q @ drop 2 (pt_rows tmp ! b ! q)
      \<and> length (pt_rows v ! b ! q) = 2 \<and> length (pt_rows tmp ! b ! q) = pt_coord tmp"
    if b: "b < pt_batch ref" and q: "q < pt_query ref" for b q
  proof -
    have "length (pt_rows v ! b ! q) = 2"
      using pt_wf_nth(2) [OF v(2), of b q] b q v(3,4,5) by simp
    moreover have "length (pt_rows tmp ! b ! q) = pt_coord tmp"
      using pt_wf_nth(2) [OF w(1), of b q] b q d by simp
    ultimately show ?thesis using row [OF b] q by simp
  qed
  have wn: "pt_wf ?n"
    unfolding pt_wf_def
  proof (intro conjI ballI)
    show "length (pt_rows ?n) = pt_batch ?n" using lr d by simp
  next
    fix rb assume "rb \<in> set (pt_rows ?n)"
    then obtain b where b: "b < pt_batch ref" "rb = ?rows ! b"
      using lr by (auto simp: in_set_conv_nth)
    show "length rb = pt_query ?n" using row [OF b(1)] b(2) d by simp
  next
    fix rb p assume "rb \<in> set (pt_rows ?n)" and p: "p \<in> set rb"
    then obtain b where b: "b < pt_batch ref" "rb = ?rows ! b"
      using lr by (auto simp: in_set_conv_nth)
    have "length rb = pt_query ref" using row [OF b(1)] b(2) by simp
    with p obtain q where q: "q < pt_query ref" "p = rb ! q" by (auto simp: in_set_conv_nth)
    have "length p = 2 + (pt_coord tmp - 2)" using pt [OF b(1) q(1)] b(2) q(2) by simp
    then show "length p = pt_coord ?n" using c(2) by simp
  qed
  have wnew: "pt_wf ?new" using wn by (simp add: pt_wf_detach pt_wf_map)
  have dn: "pt_batch ?new = pt_batch ref" "pt_query ?new = pt_query ref"
    "pt_coord ?new = pt_coord tmp"
    using d by (simp_all add: detach_fields pt_map_fields)
  have "pt_rows ?new ! b ! q ! k
              = (if k < 2
                 then fsigmoid (fadd (pt_rows tmp ! b ! q ! k)
                          (inverse_sigmoid (pt_rows ref ! b ! q ! k) default_eps))
                 else fsigmoid (pt_rows tmp ! b ! q ! k))"
    if b: "b < pt_batch ref" and q: "q < pt_query ref" and k: "k < pt_coord tmp" for b q k
  proof -
    have 0: "pt_rows ?new ! b ! q ! k = fsigmoid (pt_rows ?n ! b ! q ! k)"
      unfolding detach_fields using pt_map_nth [OF wn, of b q k fsigmoid] b q k d by simp
    note p = pt [OF b q]
    show ?thesis
    proof (cases "k < 2")
      case True
      have "pt_rows ?n ! b ! q ! k = pt_rows v ! b ! q ! k"
        using p True by (simp add: nth_append)
      also have "\<dots> = fadd (pt_rows ?s ! b ! q ! k) (pt_rows ?i ! b ! q ! k)"
        using f b q True by simp
      also have "pt_rows ?s ! b ! q ! k = pt_rows tmp ! b ! q ! k"
        using sl(5) [of b q k] b q True d by simp
      also have "pt_rows ?i ! b ! q ! k = inverse_sigmoid (pt_rows ref ! b ! q ! k) default_eps"
        using pt_map_nth [OF w(2), of b q k] b q True c(1) by simp
      finally show ?thesis using 0 True by simp
    next
      case False
      have "pt_rows ?n ! b ! q ! k = drop 2 (pt_rows tmp ! b ! q) ! (k - 2)"
        using p False by (simp add: nth_append)
      also have "\<dots> = pt_rows tmp ! b ! q ! (2 + (k - 2))" using p False k by simp
      also have "2 + (k - 2) = k" using False by simp
      finally show ?thesis using 0 False by simp
    qed
  qed
  then show ?thesis using u wnew dn by blast
qed


lemma all3_mono: "all3 P xs \<Longrightarrow> (\<And>e. P e \<Longrightarrow> Q e) \<Longrightarrow> all3 Q xs"
  unfolding all3_def by blast

lemma refined_no_NaN: "refined p \<Longrightarrow> no_NaN p"
  unfolding refined_def no_NaN_def using all3_mono [of in_unit _ "\<lambda>e. e \<noteq> NaN"] in_unit_not_NaN
  by blast

lemma update_reference_refined:
  assumes "update_reference tmp ref = Inr new" and "no_NaN tmp" and "no_NaN ref"
  shows "refined new"
  unfolding refined_def
  using update_reference_in_unit [OF assms(1)] update_reference_detached [OF assms(1)] assms(2,3)
  by (simp add: no_NaN_def)

text \<open>One iteration of the loop over the layers, when the loop does not raise.\<close>

lemma decoder_layers_Cons_Inr:
  assumes "decoder_layers vr rb ri lid (layer # layers) st = Inr st'"
  obtains rpi ref where
    "reference_points_input (st_reference_points st) vr = Inr rpi"
    "(case rb of
        None \<Rightarrow> Inr (st_reference_points st)
      | Some branches \<Rightarrow>
          if lid < length branches
          then update_reference ((branches ! lid) (layer (st_output st) rpi))
                 (st_reference_points st)
          else Inl IndexError) = Inr ref"
    "decoder_layers vr rb ri (Suc lid) layers
       (if ri
        then st\<lparr>st_output := layer (st_output st) rpi, st_reference_points := ref,
               st_intermediate := st_intermediate st @ [layer (st_output st) rpi],
               st_intermediate_reference_points := st_intermediate_reference_points st @ [ref]\<rparr>
        else st\<lparr>st_output := layer (st_output st) rpi, st_reference_points := ref\<rparr>)
       = Inr st'"
proof (cases "reference_points_input (st_reference_points st) vr")
  case (Inl e)
  then show ?thesis using assms by simp
next
  case (Inr rpi)
  let ?u = "case rb of
        None \<Rightarrow> Inr (st_reference_points st)
      | Some branches \<Rightarrow>
          if lid < length branches
          then update_reference ((branches ! lid) (layer (st_output st) rpi))
                 (st_reference_points st)
          else Inl IndexError"
  show ?thesis
  proof (cases ?u)
    case (Inl e)
    then show ?thesis using assms Inr by (simp add: Let_def)
  next
    case r: (Inr ref)
    show ?thesis
      by (rule that [OF Inr r]) (use assms Inr r in \<open>simp add: Let_def\<close>)
  qed
qed

lemma decoder_layers_refined:
  assumes "decoder_layers vr (Some br) ri lid layers st = Inr st'"
    and "\<forall>k<length br. \<forall>out. no_NaN ((br ! k) out)"
    and "no_NaN (st_reference_points st)"
  shows "(layers \<noteq> [] \<longrightarrow> refined (st_reference_points st'))
     \<and> (layers = [] \<longrightarrow> st' = st)
     \<and> (\<forall>p\<in>set (st_intermediate_reference_points st').
           p \<in> set (st_intermediate_reference_points st) \<or> refined p)"
  using assms
proof (induction layers arbitrary: lid st)
  case Nil
  then show ?case by simp
next
  case (Cons layer layers)
  from Cons.prems(1) obtain rpi ref where
    u: "(case Some br of
        None \<Rightarrow> Inr (st_reference_points st)
      | Some branches \<Rightarrow>
          if lid < length branches
          then update_reference ((branches ! lid) (layer (st_output st) rpi))
                 (st_reference_points st)
          else Inl IndexError) = Inr ref"
    and l: "decoder_layers vr (Some br) ri (Suc lid) layers
       (if ri
        then st\<lparr>st_output := layer (st_output st) rpi, st_reference_points := ref,
               st_intermediate := st_intermediate st @ [layer (st_output st) rpi],
               st_intermediate_reference_points := st_intermediate_reference_points st @ [ref]\<rparr>
        else st\<lparr>st_output := layer (st_output st) rpi, st_reference_points := ref\<rparr>)
       = Inr st'"
    by (rule decoder_layers_Cons_Inr)
  let ?st2 = "if ri
        then st\<lparr>st_output := layer (st_output st) rpi, st_reference_points := ref,
               st_intermediate := st_intermediate st @ [layer (st_output st) rpi],
               st_intermediate_reference_points := st_intermediate_reference_points st @ [ref]\<rparr>
        else st\<lparr>st_output := layer (st_output st) rpi, st_reference_points := ref\<rparr>"
  have lid: "lid < length br" using u by (simp split: if_splits)
  then have ur: "update_reference ((br ! lid) (layer (st_output st) rpi))
                 (st_reference_points st) = Inr ref" using u by simp
  have nb: "no_NaN ((br ! lid) (layer (st_output st) rpi))" using Cons.prems(2) lid by blast
  have rr: "refined ref" by (rule update_reference_refined [OF ur nb Cons.prems(3)])
  have r2: "st_reference_points ?st2 = ref" by simp
  have n2: "no_NaN (st_reference_points ?st2)" unfolding r2 by (rule refined_no_NaN [OF rr])
  note ih = Cons.IH [OF l Cons.prems(2) n2]
  have a: "refined (st_reference_points st')"
  proof (cases "layers = []")
    case True
    then have "st' = ?st2" using ih by blast
    then show ?thesis using rr r2 by simp
  next
    case False
    then show ?thesis using ih by blast
  qed
  have i2: "set (st_intermediate_reference_points ?st2)
              \<subseteq> insert ref (set (st_intermediate_reference_points st))" by auto
  have b: "\<forall>p\<in>set (st_intermediate_reference_points st').
           p \<in> set (st_intermediate_reference_points st) \<or> refined p"
  proof
    fix p assume "p \<in> set (st_intermediate_reference_points st')"
    then have "p \<in> set (st_intermediate_reference_points ?st2) \<or> refined p" using ih by blast
    then show "p \<in> set (st_intermediate_reference_points st) \<or> refined p"
      using i2 rr by blast
  qed
  show ?case using a b by simp
qed

text \<open>With regression branches and at least one layer, every reference that \<open>forward\<close>
  returns is detached and has all its coordinates in \<open>[0, 1]\<close>.\<close>

lemma decoder_forward_refined:
  assumes f: "decoder_forward layers ri query ref vr (Some br) = Inr res"
    and ne: "layers \<noteq> []"
    and nb: "\<forall>k<length br. \<forall>out. no_NaN ((br ! k) out)" and nr: "no_NaN ref"
  shows "case res of Last out r \<Rightarrow> refined r | Stacked outs rs \<Rightarrow> (\<forall>r\<in>set rs. refined r)"
proof -
  let ?st0 = "\<lparr>st_output = query, st_reference_points = ref, st_intermediate = [],
              st_intermediate_reference_points = []\<rparr>"
  obtain st where l: "decoder_layers vr (Some br) ri 0 layers ?st0 = Inr st"
    using f by (cases "decoder_layers vr (Some br) ri 0 layers ?st0")
      (simp_all add: decoder_forward_def)
  have n0: "no_NaN (st_reference_points ?st0)" using nr by simp
  note r = decoder_layers_refined [OF l nb n0]
  show ?thesis
  proof (cases ri)
    case True
    then have "res = Stacked (st_intermediate st) (st_intermediate_reference_points st)"
      using f l by (simp add: decoder_forward_def split: if_splits)
    then show ?thesis using r by simp
  next
    case False
    then have "res = Last (st_output st) (st_reference_points st)"
      using f l by (simp add: decoder_forward_def)
    then show ?thesis using r ne by simp
  qed
qed


text \<open>
  Claim C4.  For a branch output and reference points of the same batch and query sizes:
  with four coordinates the new reference is \<open>sigmoid (tmp + inverse_sigmoid old)\<close> in
  every coordinate; with two coordinates only the first two coordinates of the branch
  output are combined with \<open>inverse_sigmoid old\<close>, and all of them are squashed by
  \<open>sigmoid\<close>.  Every updated reference is detached, and all its coordinates are reals in
  \<open>[0, 1]\<close> when neither argument contains a \<open>NaN\<close>.  In the loop over the layers, with
  regression branches, the reference that the next layer receives is this updated one, and
  every reference that \<open>forward\<close> returns after at least one layer is detached with all
  coordinates in \<open>[0, 1]\<close>.
\<close>

theorem reference_points_update:
  "(pt_coord ref = 4 \<and> pt_coord tmp = 4 \<and> pt_batch tmp = pt_batch ref
      \<and> pt_query tmp = pt_query ref \<and> pt_wf tmp \<and> pt_wf ref \<longrightarrow>
      (\<exists>new. update_reference tmp ref = Inr new \<and> pt_coord new = 4
         \<and> (\<forall>b<pt_batch ref. \<forall>q<pt_query ref. \<forall>k<4.
               pt_rows new ! b ! q ! k
                 = fsigmoid (fadd (pt_rows tmp ! b ! q ! k)
                             (inverse_sigmoid (pt_rows ref ! b ! q ! k) default_eps)))))
   \<and> (pt_coord ref = 2 \<and> 2 \<le> pt_coord tmp \<and> pt_batch tmp = pt_batch ref
      \<and> pt_query tmp = pt_query ref \<and> pt_wf tmp \<and> pt_wf ref \<longrightarrow>
      (\<exists>new. update_reference tmp ref = Inr new \<and> pt_coord new = pt_coord tmp
         \<and> (\<forall>b<pt_batch ref. \<forall>q<pt_query ref. \<forall>k<pt_coord tmp.
               pt_rows new ! b ! q ! k
                 = (if k < 2
                    then fsigmoid (fadd (pt_rows tmp ! b ! q ! k)
                             (inverse_sigmoid (pt_rows ref ! b ! q ! k) default_eps))
                    else fsigmoid (pt_rows tmp ! b ! q ! k)))))
   \<and> (update_reference tmp ref = Inr new \<longrightarrow>
        \<not> pt_grad new \<and> (no_NaN tmp \<and> no_NaN ref \<longrightarrow> all3 in_unit (pt_rows new)))
   \<and> (decoder_layers vr (Some br) ri lid (layer # layers) st = Inr st' \<longrightarrow>
        (\<exists>rpi ref1. reference_points_input (st_reference_points st) vr = Inr rpi
           \<and> lid < length br
           \<and> update_reference ((br ! lid) (layer (st_output st) rpi)) (st_reference_points st)
               = Inr ref1
           \<and> decoder_layers vr (Some br) ri (Suc lid) layers
               (if ri
                then st\<lparr>st_output := layer (st_output st) rpi, st_reference_points := ref1,
                       st_intermediate := st_intermediate st @ [layer (st_output st) rpi],
                       st_intermediate_reference_points :=
                         st_intermediate_reference_points st @ [ref1]\<rparr>
                else st\<lparr>st_output := layer (st_output st) rpi, st_reference_points := ref1\<rparr>)
               = Inr st'))
   \<and> (decoder_forward ls ri query ref0 vr (Some br) = Inr res \<and> ls \<noteq> []
        \<and> (\<forall>k<length br. \<forall>out. no_NaN ((br ! k) out)) \<and> no_NaN ref0 \<longrightarrow>
        (case res of Last out r \<Rightarrow> refined r | Stacked outs rs \<Rightarrow> (\<forall>r\<in>set rs. refined r)))"
proof (intro conjI impI)
  assume a: "pt_coord ref = 4 \<and> pt_coord tmp = 4 \<and> pt_batch tmp = pt_batch ref
      \<and> pt_query tmp = pt_query ref \<and> pt_wf tmp \<and> pt_wf ref"
  then have "pt_coord ref = 4" "pt_coord tmp = 4" "pt_batch tmp = pt_batch ref"
    "pt_query tmp = pt_query ref" "pt_wf tmp" "pt_wf ref" by blast+
  from update_reference_4 [OF this]
  show "\<exists>new. update_reference tmp ref = Inr new \<and> pt_coord new = 4
         \<and> (\<forall>b<pt_batch ref. \<forall>q<pt_query ref. \<forall>k<4.
               pt_rows new ! b ! q ! k
                 = fsigmoid (fadd (pt_rows tmp ! b ! q ! k)
                             (inverse_sigmoid (pt_rows ref ! b ! q ! k) default_eps)))"
    by blast
next
  assume a: "pt_coord ref = 2 \<and> 2 \<le> pt_coord tmp \<and> pt_batch tmp = pt_batch ref
      \<and> pt_query tmp = pt_query ref \<and> pt_wf tmp \<and> pt_wf ref"
  then have "pt_coord ref = 2" "2 \<le> pt_coord tmp" "pt_batch tmp = pt_batch ref"
    "pt_query tmp = pt_query ref" "pt_wf tmp" "pt_wf ref" by blast+
  from update_reference_2 [OF this]
  show "\<exists>new. update_reference tmp ref = Inr new \<and> pt_coord new = pt_coord tmp
         \<and> (\<forall>b<pt_batch ref. \<forall>q<pt_query ref. \<forall>k<pt_coord tmp.
               pt_rows new ! b ! q ! k
                 = (if k < 2
                    then fsigmoid (fadd (pt_rows tmp ! b ! q ! k)
                             (inverse_sigmoid (pt_rows ref ! b ! q ! k) default_eps))
                    else fsigmoid (pt_rows tmp ! b ! q ! k)))"
    by blast
next
  assume u: "update_reference tmp ref = Inr new"
  show "\<not> pt_grad new" by (rule update_reference_detached [OF u])
  assume "no_NaN tmp \<and> no_NaN ref"
  then show "all3 in_unit (pt_rows new)"
    using update_reference_in_unit [OF u] by (simp add: no_NaN_def)
next
  assume l: "decoder_layers vr (Some br) ri lid (layer # layers) st = Inr st'"
  from l obtain rpi ref1 where
    r: "reference_points_input (st_reference_points st) vr = Inr rpi"
    and u: "(case Some br of
        None \<Rightarrow> Inr (st_reference_points st)
      | Some branches \<Rightarrow>
          if lid < length branches
          then update_reference ((branches ! lid) (layer (st_output st) rpi))
                 (st_reference_points st)
          else Inl IndexError) = Inr ref1"
    and n: "decoder_layers vr (Some br) ri (Suc lid) layers
       (if ri
        then st\<lparr>st_output := layer (st_output st) rpi, st_reference_points := ref1,
               st_intermediate := st_intermediate st @ [layer (st_output st) rpi],
               st_intermediate_reference_points := st_intermediate_reference_points st @ [ref1]\<rparr>
        else st\<lparr>st_output := layer (st_output st) rpi, st_reference_points := ref1\<rparr>)
       = Inr st'"
    by (rule decoder_layers_Cons_Inr)
  have lid: "lid < length br" using u by (simp split: if_splits)
  then have "update_reference ((br ! lid) (layer (st_output st) rpi)) (st_reference_points st)
               = Inr ref1" using u by simp
  then show "\<exists>rpi ref1. reference_points_input (st_reference_points st) vr = Inr rpi
           \<and> lid < length br
           \<and> update_reference ((br ! lid) (layer (st_output st) rpi)) (st_reference_points st)
               = Inr ref1
           \<and> decoder_layers vr (Some br) ri (Suc lid) layers
               (if ri
                then st\<lparr>st_output := layer (st_output st) rpi, st_reference_points := ref1,
                       st_intermediate := st_intermediate st @ [layer (st_output st) rpi],
                       st_intermediate_reference_points :=
                         st_intermediate_reference_points st @ [ref1]\<rparr>
                else st\<lparr>st_output := layer (st_output st) rpi, st_reference_points := ref1\<rparr>)
               = Inr st'"
    using r lid n by blast
next
  assume "decoder_forward ls ri query ref0 vr (Some br) = Inr res \<and> ls \<noteq> []
        \<and> (\<forall>k<length br. \<forall>out. no_NaN ((br ! k) out)) \<and> no_NaN ref0"
  then have "decoder_forward ls ri query ref0 vr (Some br) = Inr res" "ls \<noteq> []"
    "\<forall>k<length br. \<forall>out. no_NaN ((br ! k) out)" "no_NaN ref0" by blast+
  then show "case res of Last out r \<Rightarrow> refined r | Stacked outs rs \<Rightarrow> (\<forall>r\<in>set rs. refined r)"
    by (rule decoder_forward_refined)
qed


lemma example_points_wf: "pt_wf example_tmp" "pt_wf example_ref4" "pt_wf example_ref2"
  by (simp_all add: pt_wf_def example_tmp_def example_ref4_def example_ref2_def)

lemma example_points_no_NaN: "no_NaN example_tmp" "no_NaN example_ref4" "no_NaN example_ref2"
  by (simp_all add: no_NaN_def all3_def example_tmp_def example_ref4_def example_ref2_def)

lemma example_rpi:
  "\<exists>rpi. reference_points_input example_ref2 example_ratios = Inr rpi"
  by (simp add: reference_points_input_def scale_points_def bdim_def example_ref2_def
      example_ratios_def)

text \<open>Claim C4 on one query of one sample, with four and with two coordinates, and on a
  decoder of one layer.\<close>

theorem reference_points_update_witness:
  "pt_wf example_tmp \<and> pt_wf example_ref4 \<and> pt_wf example_ref2
   \<and> no_NaN example_tmp \<and> no_NaN example_ref4 \<and> no_NaN example_ref2
   \<and> (\<exists>new. update_reference example_tmp example_ref4 = Inr new \<and> pt_coord new = 4
         \<and> \<not> pt_grad new \<and> all3 in_unit (pt_rows new)
         \<and> pt_rows new ! 0 ! 0 ! 0
             = fsigmoid (fadd (Fin 0) (inverse_sigmoid (Fin (1 / 2)) default_eps)))
   \<and> (\<exists>new. update_reference example_tmp example_ref2 = Inr new \<and> pt_coord new = 4
         \<and> \<not> pt_grad new \<and> all3 in_unit (pt_rows new)
         \<and> pt_rows new ! 0 ! 0 ! 0
             = fsigmoid (fadd (Fin 0) (inverse_sigmoid (Fin (1 / 2)) default_eps))
         \<and> pt_rows new ! 0 ! 0 ! 3 = fsigmoid (Fin 0))
   \<and> (\<exists>r st'. decoder_layers example_ratios (Some [\<lambda>q. example_tmp]) False 0 [\<lambda>q rpi. q]
                \<lparr>st_output = (), st_reference_points = example_ref2, st_intermediate = [],
                 st_intermediate_reference_points = []\<rparr> = Inr st'
         \<and> st_reference_points st' = r
         \<and> decoder_forward [\<lambda>q rpi. q] False () example_ref2 example_ratios
             (Some [\<lambda>q. example_tmp]) = Inr (Last () r)
         \<and> refined r)"
proof -
  let ?br = "[\<lambda>q::unit. example_tmp]"
  let ?ls = "[\<lambda>(q::unit) (rpi::fval list list list list). q]"
  let ?st0 = "\<lparr>st_output = (), st_reference_points = example_ref2, st_intermediate = [],
                 st_intermediate_reference_points = []\<rparr>"
  have d4: "pt_coord example_ref4 = 4" "pt_coord example_tmp = 4"
    "pt_batch example_tmp = pt_batch example_ref4" "pt_query example_tmp = pt_query example_ref4"
    by (simp_all add: example_tmp_def example_ref4_def)
  have d2: "pt_coord example_ref2 = 2" "2 \<le> pt_coord example_tmp"
    "pt_batch example_tmp = pt_batch example_ref2" "pt_query example_tmp = pt_query example_ref2"
    by (simp_all add: example_tmp_def example_ref2_def)
  note w = example_points_wf
  note n = example_points_no_NaN
  note t = reference_points_update [where tmp = example_tmp and vr = example_ratios
      and br = ?br and ri = False and lid = 0 and layer = "\<lambda>q rpi. q" and layers = "[]"
      and ls = ?ls and query = "()" and ?ref0.0 = example_ref2 and st = ?st0]
  \<comment> \<open>four coordinates\<close>
  note t4 = t [where ref = example_ref4]
  from t4 d4 w obtain new4 where
    u4: "update_reference example_tmp example_ref4 = Inr new4" "pt_coord new4 = 4"
    and f4: "\<forall>b<pt_batch example_ref4. \<forall>q<pt_query example_ref4. \<forall>k<4.
               pt_rows new4 ! b ! q ! k
                 = fsigmoid (fadd (pt_rows example_tmp ! b ! q ! k)
                             (inverse_sigmoid (pt_rows example_ref4 ! b ! q ! k) default_eps))"
    by blast
  have g4: "\<not> pt_grad new4" "all3 in_unit (pt_rows new4)"
    using t [where ref = example_ref4 and new = new4] u4(1) n by blast+
  have e4: "pt_rows new4 ! 0 ! 0 ! 0
             = fsigmoid (fadd (Fin 0) (inverse_sigmoid (Fin (1 / 2)) default_eps))"
    using f4 by (simp add: example_tmp_def example_ref4_def)
  \<comment> \<open>two coordinates\<close>
  from t [where ref = example_ref2] d2 w obtain new2 where
    u2: "update_reference example_tmp example_ref2 = Inr new2"
      "pt_coord new2 = pt_coord example_tmp"
    and f2: "\<forall>b<pt_batch example_ref2. \<forall>q<pt_query example_ref2. \<forall>k<pt_coord example_tmp.
               pt_rows new2 ! b ! q ! k
                 = (if k < 2
                    then fsigmoid (fadd (pt_rows example_tmp ! b ! q ! k)
                             (inverse_sigmoid (pt_rows example_ref2 ! b ! q ! k) default_eps))
                    else fsigmoid (pt_rows example_tmp ! b ! q ! k))"
    by blast
  have g2: "\<not> pt_grad new2" "all3 in_unit (pt_rows new2)"
    using t [where ref = example_ref2 and new = new2] u2(1) n by blast+
  have c2: "pt_coord new2 = 4" using u2(2) by (simp add: example_tmp_def)
  have e2: "pt_rows new2 ! 0 ! 0 ! 0
             = fsigmoid (fadd (Fin 0) (inverse_sigmoid (Fin (1 / 2)) default_eps))"
    "pt_rows new2 ! 0 ! 0 ! 3 = fsigmoid (Fin 0)"
    using f2 by (simp_all add: example_tmp_def example_ref2_def)
  \<comment> \<open>one layer of the decoder\<close>
  from example_rpi obtain rpi where
    rpi: "reference_points_input example_ref2 example_ratios = Inr rpi" by blast
  let ?st1 = "?st0\<lparr>st_output := (), st_reference_points := new2\<rparr>"
  have l: "decoder_layers example_ratios (Some ?br) False 0 ?ls ?st0 = Inr ?st1"
    using rpi u2(1) by simp
  have f: "decoder_forward ?ls False () example_ref2 example_ratios (Some ?br)
             = Inr (Last () new2)"
    using l by (simp add: decoder_forward_def)
  have nb: "\<forall>k<length ?br. \<forall>out. no_NaN ((?br ! k) out)" using n(1) by simp
  have "refined new2"
    using t [where ref = example_ref2 and res = "Last () new2"] f nb n(3) by simp
  then have "\<exists>r st'. decoder_layers example_ratios (Some ?br) False 0 ?ls ?st0 = Inr st'
         \<and> st_reference_points st' = r
         \<and> decoder_forward ?ls False () example_ref2 example_ratios (Some ?br) = Inr (Last () r)
         \<and> refined r"
    using l f by auto
  then show ?thesis using w n u4 g4 e4 u2(1) c2 g2 e2 by blast
qed


section \<open>Proposals from the encoder output\<close>


















section \<open>Properties of VectorQuantizer.forward\<close>


















text \<open>On the example the quantized vectors are \<open>[1, 1]\<close> and \<open>[0, 0]\<close>, the indices 1 and
  0, and the loss \<open>1/4 + 1/4 * 1/4\<close>.\<close>

lemma example_vq_forward:
  "VectorQuantizer_forward example_vq example_inputs
     = Inr (\<lparr>shape = [1, 2, 2], data = [1, 1, 0, 0]\<rparr>, Fin (5 / 16), [1, 0])"
  by (simp add: VectorQuantizer_forward_def example_vq_def example_inputs_def flat_input_def
      distances_def argmin_def one_hot_def row_matmul_def mse_loss_def Let_def upt_rec
      power2_eq_square)



end
